theory Spec2Isabelle
  imports Main "HOL-Library.AList" "HOL-Library.Sublist"
begin

section \<open>Python values\<close>

text \<open>
  The exceptions the collectors and the merge function can raise. \<open>ValueError\<close> is the
  invalid-resource failure and \<open>ConnectionResetError\<close> the connectivity failure of
  \<^verbatim>\<open>make_api_call\<close>; the others come from Python's own operations on values of an
  unexpected shape. None of them is a subclass of another.
\<close>

datatype error =
  ValueError | ConnectionResetError | KeyError | TypeError | AttributeError | IndexError

text \<open>
  The Python values the program handles: what \<^verbatim>\<open>res.json()\<close> can return (\<^verbatim>\<open>None\<close>,
  booleans, integers, strings, lists, dicts with string keys) and the sets the collectors
  build. A dict keeps its items in insertion order, with distinct keys. Floating point
  numbers are left out.
\<close>

datatype pyval =
  PNone | PBool bool | PInt int | PStr string | PList "pyval list"
  | PDict "(string \<times> pyval) list" | PSet "pyval list"

type_synonym pydict = "(string \<times> pyval) list"

text \<open>Sequencing of fallible steps: the first exception ends the computation.\<close>

definition bindE :: "error + 'a \<Rightarrow> ('a \<Rightarrow> error + 'b) \<Rightarrow> error + 'b" where
  "bindE m f = (case m of Inl e \<Rightarrow> Inl e | Inr x \<Rightarrow> f x)"

text \<open>\<^verbatim>\<open>d[k]\<close> on a dict.\<close>

definition dict_getitem :: "pydict \<Rightarrow> string \<Rightarrow> error + pyval" where
  "dict_getitem d k = (case map_of d k of None \<Rightarrow> Inl KeyError | Some v \<Rightarrow> Inr v)"

text \<open>\<^verbatim>\<open>x[k]\<close> with a string key: only a dict can be subscripted by a string.\<close>

fun py_getitem :: "pyval \<Rightarrow> string \<Rightarrow> error + pyval" where
  "py_getitem (PDict d) k = dict_getitem d k"
| "py_getitem _ k = Inl TypeError"

text \<open>\<^verbatim>\<open>x.get(k)\<close>: a missing key gives \<^verbatim>\<open>None\<close>; only a dict has the method.\<close>

fun py_get :: "pyval \<Rightarrow> string \<Rightarrow> error + pyval" where
  "py_get (PDict d) k = (case map_of d k of None \<Rightarrow> Inr PNone | Some v \<Rightarrow> Inr v)"
| "py_get _ k = Inl AttributeError"

text \<open>Truth value of a value in a condition.\<close>

fun truthy :: "pyval \<Rightarrow> bool" where
  "truthy PNone = False"
| "truthy (PBool b) = b"
| "truthy (PInt n) = (n \<noteq> 0)"
| "truthy (PStr s) = (s \<noteq> [])"
| "truthy (PList xs) = (xs \<noteq> [])"
| "truthy (PDict d) = (d \<noteq> [])"
| "truthy (PSet xs) = (xs \<noteq> [])"

text \<open>\<^verbatim>\<open>len(x)\<close>; a string has one list element for each code point.\<close>

fun py_len :: "pyval \<Rightarrow> error + nat" where
  "py_len (PStr s) = Inr (length s)"
| "py_len (PList xs) = Inr (length xs)"
| "py_len (PDict d) = Inr (length d)"
| "py_len (PSet xs) = Inr (length xs)"
| "py_len _ = Inl TypeError"

text \<open>
  A Python set is kept as the list of its elements without duplicates, in the order in
  which they were added. The order in which a set is iterated over is another matter:
  CPython derives it from the hashes of the elements, which for strings change from one
  process to the next (\<^verbatim>\<open>PYTHONHASHSEED\<close>). A \<open>set_order\<close> stands for the process: it
  says in which order the elements of each set come out, and \<open>iter_order\<close> follows it as
  far as it returns an arrangement of the elements.
\<close>

type_synonym set_order = "pyval list \<Rightarrow> pyval list"

definition iter_order :: "set_order \<Rightarrow> pyval list \<Rightarrow> pyval list" where
  "iter_order so xs =
     (if length (so xs) = length xs \<and> set (so xs) = set xs then so xs else xs)"

lemma iter_order_set [simp]: "set (iter_order so xs) = set xs"
  by (simp add: iter_order_def)

lemma iter_order_length [simp]: "length (iter_order so xs) = length xs"
  by (simp add: iter_order_def)

text \<open>
  Iteration, as in \<^verbatim>\<open>for x in v\<close>, \<^verbatim>\<open>list(v)\<close>, \<^verbatim>\<open>xs += v\<close> and \<^verbatim>\<open>s.update(v)\<close>: a list gives
  its elements, a set its elements in the order of the process, a dict its keys, a string
  its characters.
\<close>

fun py_iter :: "set_order \<Rightarrow> pyval \<Rightarrow> error + pyval list" where
  "py_iter so (PList xs) = Inr xs"
| "py_iter so (PSet xs) = Inr (iter_order so xs)"
| "py_iter so (PDict d) = Inr (map (\<lambda>kv. PStr (fst kv)) d)"
| "py_iter so (PStr s) = Inr (map (\<lambda>c. PStr [c]) s)"
| "py_iter so _ = Inl TypeError"

text \<open>A value used as a number: a boolean counts as 0 or 1.\<close>

fun as_int :: "pyval \<Rightarrow> int option" where
  "as_int (PInt n) = Some n"
| "as_int (PBool b) = Some (if b then 1 else 0)"
| "as_int _ = None"

text \<open>\<^verbatim>\<open>a + b\<close>: numbers add, lists and strings concatenate, anything else is a type error.\<close>

fun py_add :: "pyval \<Rightarrow> pyval \<Rightarrow> error + pyval" where
  "py_add (PList a) (PList b) = Inr (PList (a @ b))"
| "py_add (PStr a) (PStr b) = Inr (PStr (a @ b))"
| "py_add a b =
     (case (as_int a, as_int b) of (Some m, Some n) \<Rightarrow> Inr (PInt (m + n)) | _ \<Rightarrow> Inl TypeError)"

text \<open>\<^verbatim>\<open>a += b\<close>: a list is extended by whatever \<open>b\<close> iterates over; otherwise as \<^verbatim>\<open>a + b\<close>.\<close>

fun py_iadd :: "set_order \<Rightarrow> pyval \<Rightarrow> pyval \<Rightarrow> error + pyval" where
  "py_iadd so (PList a) b = bindE (py_iter so b) (\<lambda>items. Inr (PList (a @ items)))"
| "py_iadd so a b = py_add a b"

text \<open>\<^verbatim>\<open>n += b\<close> for an attribute that holds an integer.\<close>

definition int_iadd :: "int \<Rightarrow> pyval \<Rightarrow> error + int" where
  "int_iadd n b = (case as_int b of Some m \<Rightarrow> Inr (n + m) | None \<Rightarrow> Inl TypeError)"

subsection \<open>Sets\<close>

text \<open>
  Adding to a set. Lists, dicts and sets are unhashable, and \<^verbatim>\<open>True == 1\<close>,
  \<^verbatim>\<open>False == 0\<close> with equal hashes, which \<open>hash_key\<close> records.
\<close>

fun hashable :: "pyval \<Rightarrow> bool" where
  "hashable (PList xs) = False"
| "hashable (PDict d) = False"
| "hashable (PSet xs) = False"
| "hashable v = True"

fun hash_key :: "pyval \<Rightarrow> pyval" where
  "hash_key (PBool b) = PInt (if b then 1 else 0)"
| "hash_key v = v"

definition set_add :: "pyval \<Rightarrow> pyval list \<Rightarrow> error + pyval list" where
  "set_add x s =
     (if hashable x
      then Inr (if hash_key x \<in> set (map hash_key s) then s else s @ [x])
      else Inl TypeError)"

text \<open>
  \<^verbatim>\<open>s.update(xs)\<close> adds the elements one by one; an unhashable element raises and leaves
  the set as far as it was updated.
\<close>

fun set_update :: "pyval list \<Rightarrow> pyval list \<Rightarrow> (error + unit) \<times> pyval list" where
  "set_update s [] = (Inr (), s)"
| "set_update s (x # xs) =
     (case set_add x s of Inl e \<Rightarrow> (Inl e, s) | Inr s' \<Rightarrow> set_update s' xs)"

subsection \<open>Dict updates\<close>

text \<open>\<^verbatim>\<open>d[k1][k2] = v\<close>.\<close>

definition dict_setitem2 :: "string \<Rightarrow> string \<Rightarrow> pyval \<Rightarrow> pydict \<Rightarrow> error + pydict" where
  "dict_setitem2 k1 k2 v d =
     (case map_of d k1 of
        None \<Rightarrow> Inl KeyError
      | Some (PDict inner) \<Rightarrow> Inr (AList.update k1 (PDict (AList.update k2 v inner)) d)
      | Some _ \<Rightarrow> Inl TypeError)"

text \<open>\<^verbatim>\<open>d[k] += 1\<close> on a dict of integers.\<close>

definition dict_incr :: "string \<Rightarrow> (string \<times> int) list \<Rightarrow> error + (string \<times> int) list" where
  "dict_incr k d =
     (case map_of d k of None \<Rightarrow> Inl KeyError | Some n \<Rightarrow> Inr (AList.update k (n + 1) d))"

section \<open>Strings\<close>

text \<open>
  A string is the list of its code points, each below 256: the ASCII characters and the
  Latin-1 supplement, which is also how \<^verbatim>\<open>requests\<close> decodes a header. \<open>is_space\<close> holds of
  the code points that \<^verbatim>\<open>str.isspace()\<close> accepts, the whitespace of \<^verbatim>\<open>str.split()\<close>.
\<close>

definition is_space :: "char \<Rightarrow> bool" where
  "is_space c \<longleftrightarrow>
     c \<in> set [CHR 0x09, CHR 0x0A, CHR 0x0B, CHR 0x0C, CHR 0x0D,
              CHR 0x1C, CHR 0x1D, CHR 0x1E, CHR 0x1F, CHR 0x20, CHR 0x85, CHR 0xA0]"

text \<open>\<^verbatim>\<open>s.split()\<close>: the words between runs of whitespace.\<close>

fun split_ws :: "string \<Rightarrow> string \<Rightarrow> string list" where
  "split_ws cur [] = (if cur = [] then [] else [cur])"
| "split_ws cur (c # cs) =
     (if is_space c then (if cur = [] then split_ws [] cs else cur # split_ws [] cs)
      else split_ws (cur @ [c]) cs)"

definition py_split_ws :: "string \<Rightarrow> string list" where
  "py_split_ws s = split_ws [] s"

text \<open>\<^verbatim>\<open>sep.join(xs)\<close>.\<close>

fun py_join :: "string \<Rightarrow> string list \<Rightarrow> string" where
  "py_join sep [] = []"
| "py_join sep [x] = x"
| "py_join sep (x # y # ys) = x @ sep @ py_join sep (y # ys)"

text \<open>
  \<^verbatim>\<open>s.split(sep)\<close> for a non-empty separator: the pieces between the occurrences of
  \<open>sep\<close>, found from the left without overlap. \<open>cur\<close> is the piece being read.
\<close>

function split_from :: "string \<Rightarrow> string \<Rightarrow> string \<Rightarrow> string list" where
  "split_from sep cur s =
     (if s = [] then [cur]
      else if sep \<noteq> [] \<and> prefix sep s then cur # split_from sep [] (drop (length sep) s)
      else split_from sep (cur @ [hd s]) (tl s))"
  by pat_completeness auto
termination
  by (relation "measure (\<lambda>(sep, cur, s). length s)") auto

definition py_split :: "string \<Rightarrow> string \<Rightarrow> string list" where
  "py_split sep s = split_from sep [] s"

text \<open>\<^verbatim>\<open>xs[-1]\<close>.\<close>

definition py_last :: "'a list \<Rightarrow> error + 'a" where
  "py_last xs = (if xs = [] then Inl IndexError else Inr (last xs))"

text \<open>
  \<^verbatim>\<open>s.lower()\<close>: the letters \<^verbatim>\<open>A\<close> to \<^verbatim>\<open>Z\<close> and the capital letters of the Latin-1
  supplement, 0xC0 to 0xDE without the multiplication sign 0xD7, are moved up by 32.
\<close>

definition upper_letters :: string where
  "upper_letters =
     ''ABCDEFGHIJKLMNOPQRSTUVWXYZ''
     @ [CHR 0xC0, CHR 0xC1, CHR 0xC2, CHR 0xC3, CHR 0xC4, CHR 0xC5, CHR 0xC6, CHR 0xC7, CHR 0xC8, CHR 0xC9,
        CHR 0xCA, CHR 0xCB, CHR 0xCC, CHR 0xCD, CHR 0xCE, CHR 0xCF, CHR 0xD0, CHR 0xD1, CHR 0xD2, CHR 0xD3,
        CHR 0xD4, CHR 0xD5, CHR 0xD6, CHR 0xD8, CHR 0xD9, CHR 0xDA, CHR 0xDB, CHR 0xDC, CHR 0xDD, CHR 0xDE]"

definition lower_letters :: string where
  "lower_letters =
     ''abcdefghijklmnopqrstuvwxyz''
     @ [CHR 0xE0, CHR 0xE1, CHR 0xE2, CHR 0xE3, CHR 0xE4, CHR 0xE5, CHR 0xE6, CHR 0xE7, CHR 0xE8, CHR 0xE9,
        CHR 0xEA, CHR 0xEB, CHR 0xEC, CHR 0xED, CHR 0xEE, CHR 0xEF, CHR 0xF0, CHR 0xF1, CHR 0xF2, CHR 0xF3,
        CHR 0xF4, CHR 0xF5, CHR 0xF6, CHR 0xF8, CHR 0xF9, CHR 0xFA, CHR 0xFB, CHR 0xFC, CHR 0xFD, CHR 0xFE]"

definition lower_char :: "char \<Rightarrow> char" where
  "lower_char c = (case map_of (zip upper_letters lower_letters) c of None \<Rightarrow> c | Some l \<Rightarrow> l)"

definition py_lower :: "string \<Rightarrow> string" where
  "py_lower s = map lower_char s"

subsection \<open>Integers and strings\<close>

definition digit_char :: "nat \<Rightarrow> char" where
  "digit_char d = ''0123456789'' ! d"

text \<open>\<^verbatim>\<open>str(n)\<close> for an integer.\<close>

function show_nat :: "nat \<Rightarrow> string" where
  "show_nat n = (if n < 10 then [digit_char n] else show_nat (n div 10) @ [digit_char (n mod 10)])"
  by pat_completeness auto
termination
  by (relation "measure id") auto

definition show_int :: "int \<Rightarrow> string" where
  "show_int n = (if n < 0 then CHR ''-'' # show_nat (nat (- n)) else show_nat (nat n))"

definition digit_of :: "char \<Rightarrow> nat option" where
  "digit_of c =
     map_of [(CHR ''0'', 0), (CHR ''1'', 1), (CHR ''2'', 2), (CHR ''3'', 3), (CHR ''4'', 4),
             (CHR ''5'', 5), (CHR ''6'', 6), (CHR ''7'', 7), (CHR ''8'', 8), (CHR ''9'', 9)] c"

fun digits_value :: "nat \<Rightarrow> string \<Rightarrow> nat option" where
  "digits_value acc [] = Some acc"
| "digits_value acc (c # cs) =
     (case digit_of c of None \<Rightarrow> None | Some d \<Rightarrow> digits_value (10 * acc + d) cs)"

text \<open>
  What \<^verbatim>\<open>int()\<close> skips around a number: the ASCII whitespace of C and the whitespace
  above 127, but not the separators 0x1C to 0x1F.
\<close>

definition is_int_space :: "char \<Rightarrow> bool" where
  "is_int_space c \<longleftrightarrow>
     c \<in> set [CHR 0x09, CHR 0x0A, CHR 0x0B, CHR 0x0C, CHR 0x0D, CHR 0x20, CHR 0x85, CHR 0xA0]"

definition int_strip :: "string \<Rightarrow> string" where
  "int_strip s = rev (dropWhile is_int_space (rev (dropWhile is_int_space s)))"

text \<open>Digits in groups, single underscores between the groups only.\<close>

definition well_grouped :: "string \<Rightarrow> bool" where
  "well_grouped u \<longleftrightarrow>
     u \<noteq> [] \<and> hd u \<noteq> CHR ''_'' \<and> last u \<noteq> CHR ''_'' \<and> \<not> sublist ''__'' u"

text \<open>The most digits \<^verbatim>\<open>int()\<close> reads from a string (\<^verbatim>\<open>sys.int_info.default_max_str_digits\<close>).\<close>

definition max_str_digits :: nat where
  "max_str_digits = 4300"

text \<open>
  \<^verbatim>\<open>int(s)\<close> for a string: whitespace around, an optional sign, decimal digits in groups,
  at most \<open>max_str_digits\<close> of them; anything else raises \<^verbatim>\<open>ValueError\<close>.
\<close>

definition py_int :: "string \<Rightarrow> error + int" where
  "py_int s =
     (let t = int_strip s;
          neg = (t \<noteq> [] \<and> hd t = CHR ''-'');
          u = (if t \<noteq> [] \<and> (hd t = CHR ''-'' \<or> hd t = CHR ''+'') then tl t else t);
          ds = filter (\<lambda>c. c \<noteq> CHR ''_'') u
      in if well_grouped u \<and> length ds \<le> max_str_digits
         then (case digits_value 0 ds of
                 None \<Rightarrow> Inl ValueError
               | Some n \<Rightarrow> Inr (if neg then - int n else int n))
         else Inl ValueError)"

text \<open>\<^verbatim>\<open>range(a, b)\<close>.\<close>

definition py_range :: "int \<Rightarrow> int \<Rightarrow> int list" where
  "py_range a b = [a..b - 1]"

subsection \<open>Formatting a value into a string\<close>

definition hex_digit :: "nat \<Rightarrow> char" where
  "hex_digit d = ''0123456789abcdef'' ! d"

text \<open>
  \<^verbatim>\<open>repr\<close> of a string: in single quotes, or in double quotes when it holds a single
  quote and no double quote; the quote, the backslash and the code points that are not
  printable (below 32, 0x7F to 0xA0, and the soft hyphen 0xAD) escaped.
\<close>

definition repr_char :: "char \<Rightarrow> char \<Rightarrow> string" where
  "repr_char q c =
     (if c = q \<or> c = CHR 0x5C then [CHR 0x5C, c]
      else if c = CHR 0x09 then [CHR 0x5C, CHR ''t'']
      else if c = CHR 0x0A then [CHR 0x5C, CHR ''n'']
      else if c = CHR 0x0D then [CHR 0x5C, CHR ''r'']
      else if (of_char c :: nat) < 32 \<or> (0x7F \<le> (of_char c :: nat) \<and> (of_char c :: nat) \<le> 0xA0)
              \<or> c = CHR 0xAD
        then [CHR 0x5C, CHR ''x'', hex_digit (of_char c div 16), hex_digit (of_char c mod 16)]
      else [c])"

definition repr_str :: "string \<Rightarrow> string" where
  "repr_str s =
     (let q = (if CHR 0x27 \<in> set s \<and> CHR 0x22 \<notin> set s then CHR 0x22 else CHR 0x27)
      in q # concat (map (repr_char q) s) @ [q])"

fun py_repr :: "set_order \<Rightarrow> pyval \<Rightarrow> string" where
  "py_repr so PNone = ''None''"
| "py_repr so (PBool b) = (if b then ''True'' else ''False'')"
| "py_repr so (PInt n) = show_int n"
| "py_repr so (PStr s) = repr_str s"
| "py_repr so (PList xs) = ''['' @ py_join '', '' (map (py_repr so) xs) @ '']''"
| "py_repr so (PDict d) =
     ''{'' @ py_join '', '' (map (\<lambda>(k, v). repr_str k @ '': '' @ py_repr so v) d) @ ''}''"
| "py_repr so (PSet xs) =
     (if xs = [] then ''set()''
      else ''{'' @ py_join '', '' (map (py_repr so) (iter_order so xs)) @ ''}'')"

text \<open>\<^verbatim>\<open>str(v)\<close>, as an f-string and \<^verbatim>\<open>requests\<close> format a value.\<close>

fun py_str :: "set_order \<Rightarrow> pyval \<Rightarrow> string" where
  "py_str so (PStr s) = s"
| "py_str so v = py_repr so v"

subsection \<open>The regular expression of the link header\<close>

text \<open>
  \<^verbatim>\<open>(.*)>;\<close> matched at the start of a text: the dot takes any character but a newline,
  the star is greedy and gives characters back until \<^verbatim>\<open>>;\<close> follows. The result is the
  captured group and the text behind the match.
\<close>

fun greedy_until_gt :: "string \<Rightarrow> (string \<times> string) option" where
  "greedy_until_gt [] = None"
| "greedy_until_gt (c # cs) =
     (case (if c = CHR 0x0A then None else greedy_until_gt cs) of
        Some (cap, rest) \<Rightarrow> Some (c # cap, rest)
      | None \<Rightarrow> (if prefix ''>;'' (c # cs) then Some ([], drop 2 (c # cs)) else None))"

lemma greedy_until_gt_shorter:
  "greedy_until_gt s = Some (cap, rest) \<Longrightarrow> length rest < length s"
  by (induction s arbitrary: cap rest) (auto split: if_splits option.splits prod.splits)

text \<open>
  \<^verbatim>\<open>re.findall('page=(.*)>;', s)\<close>: the groups of the matches, found from the left
  without overlap.
\<close>

function findall_page :: "string \<Rightarrow> string list" where
  "findall_page s =
     (if s = [] then []
      else if prefix ''page='' s
        then (case greedy_until_gt (drop 5 s) of
                Some (cap, rest) \<Rightarrow> cap # findall_page rest
              | None \<Rightarrow> findall_page (tl s))
      else findall_page (tl s))"
  by pat_completeness auto
termination
  by (relation "measure length") (auto dest: greedy_until_gt_shorter)

text \<open>The recursive equations are unfolded on demand only.\<close>

declare split_from.simps [simp del] show_nat.simps [simp del] findall_page.simps [simp del]

section \<open>The transport and the effects of a collector\<close>

text \<open>
  What \<^verbatim>\<open>requests.get\<close> hands back: \<^verbatim>\<open>res.ok\<close>, the parsed body \<^verbatim>\<open>res.json()\<close> and
  \<^verbatim>\<open>res.headers\<close> (header names lower-cased).
\<close>

record response =
  ok :: bool
  body :: pyval
  headers :: "(string \<times> string) list"

text \<open>
  \<^verbatim>\<open>requests.get(url, headers=...)\<close>. \<open>None\<close> stands for a raised
  \<^verbatim>\<open>requests.exceptions.RequestException\<close>; \<open>'w\<close> is the state of the world the request
  acts on (a remote server, or a mock and its call record).
\<close>

type_synonym 'w transport = "string \<Rightarrow> (string \<times> string) list \<Rightarrow> 'w \<Rightarrow> response option \<times> 'w"

text \<open>
  A deterministic transport: a fixed mapping from the request to its outcome, which
  leaves the world as it is.
\<close>

definition stateless ::
  "(string \<Rightarrow> (string \<times> string) list \<Rightarrow> response option) \<Rightarrow> 'w transport" where
  "stateless t u hdrs w = (t u hdrs, w)"

text \<open>A transport that also records the URLs requested, in order.\<close>

definition recording :: "'w transport \<Rightarrow> ('w \<times> string list) transport" where
  "recording requests_get u hdrs s =
     (case requests_get u hdrs (fst s) of (r, w') \<Rightarrow> (r, (w', snd s @ [u])))"

text \<open>
  The mock of the unit tests: the outcomes are served from a list, one per call,
  whatever the URL. A list that has run out refuses the connection.
\<close>

definition scripted :: "response option list transport" where
  "scripted u hdrs w = (case w of [] \<Rightarrow> (None, []) | r # rs \<Rightarrow> (r, rs))"

definition ok_json :: "pyval \<Rightarrow> response option" where
  "ok_json v = Some \<lparr>ok = True, body = v, headers = []\<rparr>"

definition not_ok :: "response option" where
  "not_ok = Some \<lparr>ok = False, body = PNone, headers = []\<rparr>"

subsection \<open>Statements with effects\<close>

text \<open>
  A statement runs on a state \<open>'s\<close> and either does not return (\<open>None\<close>) or returns a
  value or raises, leaving a state behind: what was assigned before an exception stays
  assigned.
\<close>

type_synonym ('s, 'a) prog = "'s \<Rightarrow> ((error + 'a) \<times> 's) option"

definition ret :: "'a \<Rightarrow> ('s, 'a) prog" where
  "ret x s = Some (Inr x, s)"

text \<open>An expression without effects that may raise.\<close>

definition lift :: "error + 'a \<Rightarrow> ('s, 'a) prog" where
  "lift r s = Some (r, s)"

text \<open>A call that always returns.\<close>

definition total :: "('s \<Rightarrow> (error + 'a) \<times> 's) \<Rightarrow> ('s, 'a) prog" where
  "total m s = Some (m s)"

definition seq :: "('s, 'a) prog \<Rightarrow> ('a \<Rightarrow> ('s, 'b) prog) \<Rightarrow> ('s, 'b) prog" where
  "seq m f s =
     (case m s of
        None \<Rightarrow> None
      | Some (Inl e, s') \<Rightarrow> Some (Inl e, s')
      | Some (Inr x, s') \<Rightarrow> f x s')"

text \<open>\<^verbatim>\<open>try: m  except exc: handler\<close>.\<close>

definition try_except :: "('s, 'a) prog \<Rightarrow> error \<Rightarrow> ('s, 'a) prog \<Rightarrow> ('s, 'a) prog" where
  "try_except m exc handler s =
     (case m s of
        None \<Rightarrow> None
      | Some (Inl e, s') \<Rightarrow> if e = exc then handler s' else Some (Inl e, s')
      | Some (Inr x, s') \<Rightarrow> Some (Inr x, s'))"

text \<open>\<^verbatim>\<open>for x in xs: body(x)\<close>.\<close>

fun for_each :: "('a \<Rightarrow> ('s, unit) prog) \<Rightarrow> 'a list \<Rightarrow> ('s, unit) prog" where
  "for_each f [] s = Some (Inr (), s)"
| "for_each f (x # xs) s =
     (case f x s of
        None \<Rightarrow> None
      | Some (Inl e, s') \<Rightarrow> Some (Inl e, s')
      | Some (Inr u, s') \<Rightarrow> for_each f xs s')"

text \<open>
  The state of a method is the object (or the local variables) paired with the world.
  \<open>in_world\<close> runs a statement that touches the world only, \<open>on_self\<close> one that assigns to
  the object only, \<open>read_self\<close> reads it.
\<close>

definition in_world :: "('w, 'a) prog \<Rightarrow> ('v \<times> 'w, 'a) prog" where
  "in_world m s = (case m (snd s) of None \<Rightarrow> None | Some (r, w') \<Rightarrow> Some (r, (fst s, w')))"

definition on_self :: "('v \<Rightarrow> (error + unit) \<times> 'v) \<Rightarrow> ('v \<times> 'w, unit) prog" where
  "on_self f s = (case f (fst s) of (r, v') \<Rightarrow> Some (r, (v', snd s)))"

definition read_self :: "('v \<Rightarrow> 'a) \<Rightarrow> ('v \<times> 'w, 'a) prog" where
  "read_self f s = Some (Inr (f (fst s)), s)"

text \<open>An assignment \<^verbatim>\<open>self.x = e\<close> or \<^verbatim>\<open>self.x += e\<close> whose right-hand side may raise.\<close>

definition assign :: "('v \<Rightarrow> error + 'v) \<Rightarrow> 'v \<Rightarrow> (error + unit) \<times> 'v" where
  "assign f v = (case f v of Inl e \<Rightarrow> (Inl e, v) | Inr v' \<Rightarrow> (Inr (), v'))"

section \<open>The Bitbucket collector (app/services/bitbucket.py)\<close>

text \<open>The attributes of a \<^verbatim>\<open>Bitbucket\<close> object.\<close>

record bitbucket =
  followers :: int
  languages :: "pyval list"
  org :: string
  repos :: "(string \<times> int) list"
  results :: pydict
  url :: string
  watchers :: int

text \<open>\<^verbatim>\<open>Bitbucket(org, version)\<close>; the version defaults to \<^verbatim>\<open>'2.0'\<close>.\<close>

definition Bitbucket :: "string \<Rightarrow> string \<Rightarrow> bitbucket" where
  "Bitbucket organization version =
     \<lparr>followers = 0, languages = [], org = organization,
      repos = [(''forked'', 0), (''unforked'', 0)], results = [],
      url = ''https://api.bitbucket.org/'' @ version, watchers = 0\<rparr>"

text \<open>
  \<^verbatim>\<open>make_api_call(url)\<close>: the body of an ok response; \<^verbatim>\<open>ValueError\<close> for a response that is
  not ok; \<^verbatim>\<open>ConnectionResetError\<close> when the request itself raises.
\<close>

definition bitbucket_make_api_call :: "set_order \<Rightarrow> 'w transport \<Rightarrow> pyval \<Rightarrow> 'w \<Rightarrow> (error + pyval) \<times> 'w" where
  "bitbucket_make_api_call so requests_get link w =
     (case requests_get (py_str so link) [] w of
        (None, w') \<Rightarrow> (Inl ConnectionResetError, w')
      | (Some res, w') \<Rightarrow> (if ok res then Inr (body res) else Inl ValueError, w'))"

text \<open>\<^verbatim>\<open>get_result(page_results, data)\<close>: a \<^verbatim>\<open>KeyError\<close> gives the default.\<close>

definition get_result :: "pyval \<Rightarrow> bool \<Rightarrow> error + pyval" where
  "get_result page_results data =
     (case (if data then py_getitem page_results ''values''
            else bindE (py_getitem page_results ''values'') (\<lambda>values.
                 bindE (py_len values) (\<lambda>n. Inr (PInt (int n))))) of
        Inl e \<Rightarrow> if e = KeyError then Inr (if data then PList [] else PInt 0) else Inl e
      | Inr r \<Rightarrow> Inr r)"

text \<open>
  The \<^verbatim>\<open>while results_remaining\<close> loop of \<^verbatim>\<open>get_all_results\<close>, with the local variables
  \<open>link\<close> and \<open>paginated_results\<close>. It returns the exception that ended it, if any, and
  \<open>paginated_results\<close> as it then stands. A chain of \<^verbatim>\<open>next\<close> links that never ends keeps
  the loop running: the value is \<open>None\<close>.
\<close>

partial_function (option) get_all_results_while ::
  "set_order \<Rightarrow> 'w transport \<Rightarrow> bool \<Rightarrow> pyval \<Rightarrow> pyval \<Rightarrow> 'w \<Rightarrow> ((error + unit) \<times> pyval \<times> 'w) option" where
  "get_all_results_while so requests_get data link paginated_results w =
     (case bitbucket_make_api_call so requests_get link w of
        (Inl e, w') \<Rightarrow> Some (Inl e, paginated_results, w')
      | (Inr page_results, w') \<Rightarrow>
          (case bindE (get_result page_results data) (py_iadd so paginated_results) of
             Inl e \<Rightarrow> Some (Inl e, paginated_results, w')
           | Inr paginated_results' \<Rightarrow>
               (case py_get page_results ''next'' of
                  Inl e \<Rightarrow> Some (Inl e, paginated_results', w')
                | Inr link' \<Rightarrow>
                    if truthy link'
                    then get_all_results_while so requests_get data link' paginated_results' w'
                    else Some (Inr (), paginated_results', w'))))"

text \<open>
  \<^verbatim>\<open>get_all_results(link, data)\<close>: the loop inside \<^verbatim>\<open>try ... except ValueError: pass\<close>, then
  \<^verbatim>\<open>return paginated_results\<close>.
\<close>

definition get_all_results :: "set_order \<Rightarrow> 'w transport \<Rightarrow> pyval \<Rightarrow> bool \<Rightarrow> ('w, pyval) prog" where
  "get_all_results so requests_get link data w =
     (case get_all_results_while so requests_get data link (if data then PList [] else PInt 0) w of
        None \<Rightarrow> None
      | Some (Inl e, paginated_results, w') \<Rightarrow>
          Some (if e = ValueError then Inr paginated_results else Inl e, w')
      | Some (Inr u, paginated_results, w') \<Rightarrow> Some (Inr paginated_results, w'))"

definition bitbucket_get_followers_count :: "set_order \<Rightarrow> 'w transport \<Rightarrow> (bitbucket \<times> 'w, unit) prog" where
  "bitbucket_get_followers_count so requests_get =
     seq (read_self (\<lambda>self. url self @ ''/teams/'' @ org self @ ''/followers?pagelen=100'')) (\<lambda>link.
     seq (in_world (get_all_results so requests_get (PStr link) False)) (\<lambda>results.
     on_self (assign (\<lambda>self.
       bindE (int_iadd (followers self) results) (\<lambda>n. Inr (self\<lparr>followers := n\<rparr>))))))"

definition bitbucket_update_languages :: "pyval \<Rightarrow> (bitbucket \<times> 'w, unit) prog" where
  "bitbucket_update_languages language =
     on_self (assign (\<lambda>self.
       bindE (set_add language (languages self)) (\<lambda>s. Inr (self\<lparr>languages := s\<rparr>))))"

text \<open>\<^verbatim>\<open>self.repos[k] += 1\<close>.\<close>

definition repos_incr :: "string \<Rightarrow> ('a bitbucket_scheme \<times> 'w, unit) prog" where
  "repos_incr k =
     on_self (assign (\<lambda>self. bindE (dict_incr k (repos self)) (\<lambda>r. Inr (self\<lparr>repos := r\<rparr>))))"

definition bitbucket_update_repo_count :: "set_order \<Rightarrow> 'w transport \<Rightarrow> pyval \<Rightarrow> (bitbucket \<times> 'w, unit) prog" where
  "bitbucket_update_repo_count so requests_get link =
     try_except
       (seq (in_world (total (bitbucket_make_api_call so requests_get link))) (\<lambda>fork.
        seq (lift (py_getitem fork ''values'')) (\<lambda>values.
        if truthy values then repos_incr ''forked'' else repos_incr ''unforked'')))
       ValueError
       (repos_incr ''unforked'')"

text \<open>\<^verbatim>\<open>repo.split()\<close>: only a string has the method.\<close>

fun py_split_method :: "pyval \<Rightarrow> error + string list" where
  "py_split_method (PStr s) = Inr (py_split_ws s)"
| "py_split_method _ = Inl AttributeError"

definition bitbucket_update_watchers_count :: "set_order \<Rightarrow> 'w transport \<Rightarrow> pyval \<Rightarrow> (bitbucket \<times> 'w, unit) prog" where
  "bitbucket_update_watchers_count so requests_get repo =
     seq (lift (py_split_method repo)) (\<lambda>words.
     seq (read_self (\<lambda>self. url self @ ''/repositories/'' @ org self @ ''/''
                              @ py_join ''-'' words @ ''/watchers?pagelen=100'')) (\<lambda>link.
     seq (in_world (get_all_results so requests_get (PStr link) False)) (\<lambda>results.
     on_self (assign (\<lambda>self.
       bindE (int_iadd (watchers self) results) (\<lambda>n. Inr (self\<lparr>watchers := n\<rparr>)))))))"

text \<open>The body of the \<^verbatim>\<open>for repo in repos\<close> loop of \<^verbatim>\<open>process_repos\<close>.\<close>

definition bitbucket_process_repo :: "set_order \<Rightarrow> 'w transport \<Rightarrow> pyval \<Rightarrow> (bitbucket \<times> 'w, unit) prog" where
  "bitbucket_process_repo so requests_get repo =
     seq (lift (py_getitem repo ''language'')) (\<lambda>language.
     seq (bitbucket_update_languages language) (\<lambda>u.
     seq (lift (bindE (py_getitem repo ''links'') (\<lambda>links.
                bindE (py_getitem links ''forks'') (\<lambda>forks. py_getitem forks ''href'')))) (\<lambda>href.
     seq (bitbucket_update_repo_count so requests_get href) (\<lambda>u.
     seq (lift (py_getitem repo ''name'')) (\<lambda>name.
     bitbucket_update_watchers_count so requests_get name)))))"

text \<open>The f-string \<^verbatim>\<open>f'{self.url}/repositories/{self.org}?pagelen=100'\<close>.\<close>

definition bitbucket_repos_url :: "bitbucket \<Rightarrow> string" where
  "bitbucket_repos_url self = url self @ ''/repositories/'' @ org self @ ''?pagelen=100''"

definition bitbucket_process_repos :: "set_order \<Rightarrow> 'w transport \<Rightarrow> (bitbucket \<times> 'w, unit) prog" where
  "bitbucket_process_repos so requests_get =
     seq (read_self bitbucket_repos_url) (\<lambda>link.
     seq (in_world (get_all_results so requests_get (PStr link) True)) (\<lambda>repos.
     seq (lift (py_iter so repos)) (\<lambda>repos.
     seq (for_each (bitbucket_process_repo so requests_get) repos) (\<lambda>u.
     bitbucket_get_followers_count so requests_get))))"

text \<open>The dict \<^verbatim>\<open>self.repos\<close> as a value of the result dict.\<close>

definition repos_value :: "(string \<times> int) list \<Rightarrow> pyval" where
  "repos_value r = PDict (map (\<lambda>kv. (fst kv, PInt (snd kv))) r)"

text \<open>
  \<^verbatim>\<open>make_response()\<close>: \<^verbatim>\<open>process_repos\<close> inside \<^verbatim>\<open>try ... except ConnectionResetError: pass\<close>,
  then the four entries of \<^verbatim>\<open>self.results\<close>, which is returned.
\<close>

definition bitbucket_make_response :: "set_order \<Rightarrow> 'w transport \<Rightarrow> (bitbucket \<times> 'w, pydict) prog" where
  "bitbucket_make_response so requests_get =
     seq (try_except (bitbucket_process_repos so requests_get) ConnectionResetError (ret ())) (\<lambda>u.
     seq (on_self (assign (\<lambda>self. Inr (self\<lparr>results :=
            AList.update ''followers'' (PInt (followers self)) (results self)\<rparr>)))) (\<lambda>u.
     seq (on_self (assign (\<lambda>self. Inr (self\<lparr>results :=
            AList.update ''languages'' (PSet (languages self)) (results self)\<rparr>)))) (\<lambda>u.
     seq (on_self (assign (\<lambda>self. Inr (self\<lparr>results :=
            AList.update ''repos'' (repos_value (repos self)) (results self)\<rparr>)))) (\<lambda>u.
     seq (on_self (assign (\<lambda>self. Inr (self\<lparr>results :=
            AList.update ''watchers'' (PInt (watchers self)) (results self)\<rparr>)))) (\<lambda>u.
     read_self results)))))"

section \<open>The Github collector (app/services/github.py)\<close>

text \<open>A \<^verbatim>\<open>Github\<close> object has the attributes of a \<^verbatim>\<open>Bitbucket\<close> object and \<^verbatim>\<open>topics\<close>.\<close>

record github = bitbucket +
  topics :: "pyval list"

definition Github :: "string \<Rightarrow> github" where
  "Github organization =
     \<lparr>followers = 0, languages = [], org = organization,
      repos = [(''forked'', 0), (''unforked'', 0)], results = [],
      url = ''https://api.github.com'', watchers = 0, topics = []\<rparr>"

text \<open>
  \<^verbatim>\<open>make_api_call(url, headers)\<close>: the dict \<^verbatim>\<open>{'results': res.json(), 'headers': res.headers}\<close>
  as a pair.
\<close>

definition github_make_api_call ::
  "'w transport \<Rightarrow> string \<Rightarrow> (string \<times> string) list \<Rightarrow> 'w
     \<Rightarrow> (error + pyval \<times> (string \<times> string) list) \<times> 'w" where
  "github_make_api_call requests_get link hdrs w =
     (case requests_get link hdrs w of
        (None, w') \<Rightarrow> (Inl ConnectionResetError, w')
      | (Some res, w') \<Rightarrow> (if ok res then Inr (body res, headers res) else Inl ValueError, w'))"

text \<open>
  \<^verbatim>\<open>int(re.findall('page=(.*)>;', link_header)[-1].split('page=')[-1])\<close>, the expression of
  \<^verbatim>\<open>get_total_pages\<close> and of \<^verbatim>\<open>get_followers_count\<close>.
\<close>

definition get_total_pages :: "string \<Rightarrow> error + int" where
  "get_total_pages link_header =
     bindE (py_last (findall_page link_header)) (\<lambda>group.
     bindE (py_last (py_split ''page='' group)) py_int)"

text \<open>\<^verbatim>\<open>headers.get('link')\<close> when it is true in a condition.\<close>

definition header_link :: "(string \<times> string) list \<Rightarrow> string option" where
  "header_link hdrs =
     (case map_of hdrs ''link'' of None \<Rightarrow> None | Some h \<Rightarrow> if h = [] then None else Some h)"

text \<open>\<^verbatim>\<open>results += v\<close> on the local list of \<^verbatim>\<open>get_all_repos\<close>.\<close>

definition extend_results :: "set_order \<Rightarrow> pyval \<Rightarrow> (pyval list \<times> 'w, unit) prog" where
  "extend_results so v =
     on_self (assign (\<lambda>results. bindE (py_iter so v) (\<lambda>items. Inr (results @ items))))"

text \<open>The body of the \<^verbatim>\<open>for page in range(2, total_pages + 1)\<close> loop.\<close>

definition get_all_repos_page :: "set_order \<Rightarrow> 'w transport \<Rightarrow> string \<Rightarrow> int \<Rightarrow> (pyval list \<times> 'w, unit) prog" where
  "get_all_repos_page so requests_get link page =
     seq (in_world (total (github_make_api_call requests_get
            (link @ ''&page='' @ show_int page) []))) (\<lambda>next_data.
     extend_results so (fst next_data))"

text \<open>The statements of \<^verbatim>\<open>get_all_repos\<close> inside \<^verbatim>\<open>try\<close>, on the local list \<open>results\<close>.\<close>

definition get_all_repos_try :: "set_order \<Rightarrow> 'w transport \<Rightarrow> string \<Rightarrow> (pyval list \<times> 'w, unit) prog" where
  "get_all_repos_try so requests_get link =
     seq (in_world (total (github_make_api_call requests_get link []))) (\<lambda>data.
     seq (extend_results so (fst data)) (\<lambda>u.
     case header_link (snd data) of
       None \<Rightarrow> ret ()
     | Some link_header \<Rightarrow>
         seq (lift (get_total_pages link_header)) (\<lambda>total_pages.
         for_each (get_all_repos_page so requests_get link) (py_range 2 (total_pages + 1)))))"

definition get_all_repos :: "set_order \<Rightarrow> 'w transport \<Rightarrow> string \<Rightarrow> ('w, pyval list) prog" where
  "get_all_repos so requests_get link w =
     (case try_except (get_all_repos_try so requests_get link) ValueError (ret ()) ([], w) of
        None \<Rightarrow> None
      | Some (Inl e, collected, w') \<Rightarrow> Some (Inl e, w')
      | Some (Inr u, collected, w') \<Rightarrow> Some (Inr collected, w'))"

text \<open>The f-string \<^verbatim>\<open>f'{self.url}/users/{self.org}/followers?per_page=1'\<close>.\<close>

definition github_followers_url :: "github \<Rightarrow> string" where
  "github_followers_url self = url self @ ''/users/'' @ org self @ ''/followers?per_page=1''"

definition github_get_followers_count :: "'w transport \<Rightarrow> (github \<times> 'w, unit) prog" where
  "github_get_followers_count requests_get =
     try_except
       (seq (read_self github_followers_url) (\<lambda>link.
        seq (in_world (total (github_make_api_call requests_get link []))) (\<lambda>data.
        case (if snd data \<noteq> [] then header_link (snd data) else None) of
          Some link_header \<Rightarrow>
            seq (lift (bindE (py_last (findall_page link_header)) (\<lambda>group.
                       bindE (py_last (py_split ''page='' group)) py_int))) (\<lambda>n.
            on_self (assign (\<lambda>self. Inr (self\<lparr>followers := followers self + n\<rparr>))))
        | None \<Rightarrow>
            seq (lift (py_len (fst data))) (\<lambda>n.
            on_self (assign (\<lambda>self. Inr (self\<lparr>followers := followers self + int n\<rparr>)))))))
       ValueError
       (ret ())"

text \<open>\<^verbatim>\<open>list(d.keys())\<close>: only a dict has the method.\<close>

fun py_keys :: "pyval \<Rightarrow> error + string list" where
  "py_keys (PDict d) = Inr (map fst d)"
| "py_keys _ = Inl AttributeError"

definition github_update_languages :: "set_order \<Rightarrow> 'w transport \<Rightarrow> pyval \<Rightarrow> (github \<times> 'w, unit) prog" where
  "github_update_languages so requests_get repo =
     try_except
       (seq (read_self (\<lambda>self. url self @ ''/repos/'' @ org self @ ''/'' @ py_str so repo
                                @ ''/languages'')) (\<lambda>link.
        seq (in_world (total (github_make_api_call requests_get link
               [(''accept'', ''application/vnd.github.v3+json'')]))) (\<lambda>data.
        seq (lift (py_keys (fst data))) (\<lambda>names.
        on_self (\<lambda>self.
          case set_update (languages self) (map (\<lambda>l. PStr (py_lower l)) names) of
            (r, s) \<Rightarrow> (r, self\<lparr>languages := s\<rparr>))))))
       ValueError
       (ret ())"

definition github_update_repo_count :: "pyval \<Rightarrow> (github \<times> 'w, unit) prog" where
  "github_update_repo_count forked =
     (if truthy forked then repos_incr ''forked'' else repos_incr ''unforked'')"

definition github_update_topics :: "set_order \<Rightarrow> pyval \<Rightarrow> (github \<times> 'w, unit) prog" where
  "github_update_topics so ts =
     (if truthy ts
      then seq (lift (py_iter so ts)) (\<lambda>items.
           on_self (\<lambda>self. case set_update (topics self) items of
                              (r, s) \<Rightarrow> (r, self\<lparr>topics := s\<rparr>)))
      else ret ())"

definition github_update_watchers_count :: "pyval \<Rightarrow> (github \<times> 'w, unit) prog" where
  "github_update_watchers_count n =
     on_self (assign (\<lambda>self. bindE (int_iadd (watchers self) n) (\<lambda>m. Inr (self\<lparr>watchers := m\<rparr>))))"

text \<open>The body of the \<^verbatim>\<open>for repo in results\<close> loop of \<^verbatim>\<open>process_repos\<close>.\<close>

definition github_process_repo :: "set_order \<Rightarrow> 'w transport \<Rightarrow> pyval \<Rightarrow> (github \<times> 'w, unit) prog" where
  "github_process_repo so requests_get repo =
     seq (lift (py_getitem repo ''name'')) (\<lambda>name.
     seq (github_update_languages so requests_get name) (\<lambda>u.
     seq (lift (py_getitem repo ''fork'')) (\<lambda>fork.
     seq (github_update_repo_count fork) (\<lambda>u.
     seq (lift (py_get repo ''topics'')) (\<lambda>ts.
     seq (github_update_topics so ts) (\<lambda>u.
     seq (lift (py_getitem repo ''watchers'')) (\<lambda>n.
     github_update_watchers_count n)))))))"

definition github_process_repos :: "set_order \<Rightarrow> 'w transport \<Rightarrow> (github \<times> 'w, unit) prog" where
  "github_process_repos so requests_get =
     seq (read_self (\<lambda>self. url self @ ''/orgs/'' @ org self @ ''/repos?per_page=100'')) (\<lambda>link.
     seq (in_world (get_all_repos so requests_get link)) (\<lambda>results.
     seq (for_each (github_process_repo so requests_get) results) (\<lambda>u.
     github_get_followers_count requests_get)))"

text \<open>
  \<^verbatim>\<open>make_response()\<close>: as for Bitbucket, with \<^verbatim>\<open>list(self.topics)\<close>, the elements of the
  set in the order of the process.
\<close>

definition github_make_response :: "set_order \<Rightarrow> 'w transport \<Rightarrow> (github \<times> 'w, pydict) prog" where
  "github_make_response so requests_get =
     seq (try_except (github_process_repos so requests_get) ConnectionResetError (ret ())) (\<lambda>u.
     seq (on_self (assign (\<lambda>self. Inr (self\<lparr>results :=
            AList.update ''followers'' (PInt (followers self)) (results self)\<rparr>)))) (\<lambda>u.
     seq (on_self (assign (\<lambda>self. Inr (self\<lparr>results :=
            AList.update ''languages'' (PSet (languages self)) (results self)\<rparr>)))) (\<lambda>u.
     seq (on_self (assign (\<lambda>self. Inr (self\<lparr>results :=
            AList.update ''repos'' (repos_value (repos self)) (results self)\<rparr>)))) (\<lambda>u.
     seq (on_self (assign (\<lambda>self. Inr (self\<lparr>results :=
            AList.update ''topics'' (PList (iter_order so (topics self))) (results self)\<rparr>)))) (\<lambda>u.
     seq (on_self (assign (\<lambda>self. Inr (self\<lparr>results :=
            AList.update ''watchers'' (PInt (watchers self)) (results self)\<rparr>)))) (\<lambda>u.
     read_self results))))))"

section \<open>The merge function (app/tools/combine.py)\<close>

text \<open>
  \<^verbatim>\<open>combine(bitbucket, github)\<close>, statement by statement. The result dict starts as
  \<^verbatim>\<open>{'languages': {}, 'topics': {}, 'repos': {}}\<close>; \<^verbatim>\<open>followers\<close> and \<^verbatim>\<open>watchers\<close> are added
  behind these keys.
\<close>

text \<open>A local set after \<^verbatim>\<open>update\<close>; an exception leaves the function.\<close>

definition set_updated :: "pyval list \<Rightarrow> pyval list \<Rightarrow> error + pyval list" where
  "set_updated s xs = (case set_update s xs of (Inl e, s') \<Rightarrow> Inl e | (Inr u, s') \<Rightarrow> Inr s')"

definition combine :: "set_order \<Rightarrow> pydict \<Rightarrow> pydict \<Rightarrow> error + pydict" where
  "combine so bitbucket github =
     (let results = [(''languages'', PDict []), (''topics'', PDict []), (''repos'', PDict [])] in
      bindE (dict_getitem bitbucket ''followers'') (\<lambda>bf.
      bindE (dict_getitem github ''followers'') (\<lambda>gf.
      bindE (py_add bf gf) (\<lambda>followers.
      let results = AList.update ''followers'' followers results in
      bindE (dict_getitem bitbucket ''languages'') (\<lambda>bl.
      bindE (py_iter so bl) (\<lambda>bl_items.
      bindE (set_updated [] bl_items) (\<lambda>languages.
      bindE (dict_getitem github ''languages'') (\<lambda>gl.
      bindE (py_iter so gl) (\<lambda>gl_items.
      bindE (set_updated languages gl_items) (\<lambda>languages.
      bindE (dict_setitem2 ''languages'' ''list'' (PList (iter_order so languages)) results) (\<lambda>results.
      bindE (dict_getitem results ''languages'') (\<lambda>rl.
      bindE (py_getitem rl ''list'') (\<lambda>rll.
      bindE (py_len rll) (\<lambda>n.
      bindE (dict_setitem2 ''languages'' ''count'' (PInt (int n)) results) (\<lambda>results.
      bindE (dict_getitem github ''topics'') (\<lambda>gt.
      bindE (py_iter so gt) (\<lambda>topics.
      bindE (dict_setitem2 ''topics'' ''list'' (PList topics) results) (\<lambda>results.
      bindE (dict_getitem github ''topics'') (\<lambda>gt.
      bindE (py_len gt) (\<lambda>n.
      bindE (dict_setitem2 ''topics'' ''count'' (PInt (int n)) results) (\<lambda>results.
      bindE (dict_getitem bitbucket ''repos'') (\<lambda>br.
      bindE (py_getitem br ''forked'') (\<lambda>bk.
      bindE (dict_getitem github ''repos'') (\<lambda>gr.
      bindE (py_getitem gr ''forked'') (\<lambda>gk.
      bindE (py_add bk gk) (\<lambda>forked.
      bindE (dict_setitem2 ''repos'' ''forked'' forked results) (\<lambda>results.
      bindE (dict_getitem bitbucket ''repos'') (\<lambda>br.
      bindE (py_getitem br ''unforked'') (\<lambda>bu.
      bindE (dict_getitem github ''repos'') (\<lambda>gr.
      bindE (py_getitem gr ''unforked'') (\<lambda>gu.
      bindE (py_add bu gu) (\<lambda>unforked.
      bindE (dict_setitem2 ''repos'' ''unforked'' unforked results) (\<lambda>results.
      bindE (dict_getitem results ''repos'') (\<lambda>rr.
      bindE (py_getitem rr ''forked'') (\<lambda>rk.
      bindE (py_getitem rr ''unforked'') (\<lambda>ru.
      bindE (py_add rk ru) (\<lambda>count.
      bindE (dict_setitem2 ''repos'' ''count'' count results) (\<lambda>results.
      bindE (dict_getitem bitbucket ''watchers'') (\<lambda>bw.
      bindE (dict_getitem github ''watchers'') (\<lambda>gw.
      bindE (py_add bw gw) (\<lambda>watchers.
      Inr (AList.update ''watchers'' watchers results))))))))))))))))))))))))))))))))))))))))))"

text \<open>The inputs and expected outputs of test/test\_combine.py.\<close>

definition test_bitbucket :: pydict where
  "test_bitbucket =
     [(''followers'', PInt 1), (''languages'', PSet [PStr ''python'']),
      (''repos'', PDict [(''forked'', PInt 1), (''unforked'', PInt 1)]), (''watchers'', PInt 1)]"

definition test_github :: pydict where
  "test_github =
     [(''followers'', PInt 1), (''languages'', PSet [PStr ''javascript'']),
      (''repos'', PDict [(''forked'', PInt 1), (''unforked'', PInt 1)]),
      (''topics'', PSet [PStr ''flask'']), (''watchers'', PInt 1)]"

text \<open>
  The property of the repos structure: it has a \<^verbatim>\<open>count\<close>, a \<^verbatim>\<open>forked\<close> and an
  \<^verbatim>\<open>unforked\<close> entry, and \<^verbatim>\<open>count == forked + unforked\<close>.
\<close>

definition repos_count_ok :: "pydict \<Rightarrow> bool" where
  "repos_count_ok d =
     (case map_of d ''repos'' of
        Some (PDict r) \<Rightarrow>
          (case (map_of r ''count'', map_of r ''forked'', map_of r ''unforked'') of
             (Some c, Some f, Some u) \<Rightarrow> py_add f u = Inr c
           | _ \<Rightarrow> False)
      | _ \<Rightarrow> False)"

section \<open>The data of the unit tests\<close>

text \<open>
  The mocked bodies of test/test\_bitbucket.py: a repository page with one repository, a
  page with one entry (a fork, a watcher or a follower) and a page without entries.
\<close>

definition one_repo_page :: pyval where
  "one_repo_page =
     PDict [(''values'', PList [PDict [(''language'', PStr ''python''),
                                       (''links'', PDict [(''forks'', PDict [(''href'', PStr ''url'')])]),
                                       (''name'', PStr ''test_repo'')]])]"

definition one_entry_page :: pyval where
  "one_entry_page = PDict [(''values'', PList [PDict [(''entry'', PStr ''data'')]])]"

definition empty_page :: pyval where
  "empty_page = PDict [(''values'', PList [])]"

text \<open>A page with one entry that names a next page.\<close>

definition one_entry_page_next :: "string \<Rightarrow> pyval" where
  "one_entry_page_next u =
     PDict [(''values'', PList [PDict [(''entry'', PStr ''data'')]]), (''next'', PStr u)]"

text \<open>The link header of test/test\_github.py, whose last page is 2.\<close>

definition LINK_HEADER :: string where
  "LINK_HEADER =
     ''<https://api.github.com/organizations/216758/repos?per_page=1&page=1>; rel=\"next\", ''
     @ ''<https://api.github.com/organizations/216758/repos?per_page=1&page=2>; rel=\"last\"''"

text \<open>A Github response with the body \<open>v\<close> and this link header.\<close>

definition ok_json_linked :: "pyval \<Rightarrow> response option" where
  "ok_json_linked v = Some \<lparr>ok = True, body = v, headers = [(''link'', LINK_HEADER)]\<rparr>"

text \<open>A repository page whose one repository has no \<^verbatim>\<open>language\<close> field.\<close>

definition no_language_page :: pyval where
  "no_language_page =
     PDict [(''values'', PList [PDict [(''links'', PDict [(''forks'', PDict [(''href'', PStr ''url'')])]),
                                       (''name'', PStr ''test_repo'')]])]"


text \<open>
  A Bitbucket side that tells the URLs apart: the repository listing of the
  organization \<^verbatim>\<open>test\<close> holds the one repository of the unit tests, whose fork-listing
  link is \<^verbatim>\<open>url\<close>; the request for \<^verbatim>\<open>url\<close> is answered by \<open>fork_listing\<close>, and every
  other request by a page with one entry.
\<close>

definition fork_remote ::
  "response option \<Rightarrow> string \<Rightarrow> (string \<times> string) list \<Rightarrow> response option" where
  "fork_remote fork_listing u hdrs =
     (if u = ''https://api.bitbucket.org/2.0/repositories/test?pagelen=100''
        then ok_json one_repo_page
      else if u = ''url'' then fork_listing
      else ok_json one_entry_page)"

text \<open>The repository record of that listing.\<close>

definition test_repo :: pyval where
  "test_repo =
     PDict [(''language'', PStr ''python''),
            (''links'', PDict [(''forks'', PDict [(''href'', PStr ''url'')])]),
            (''name'', PStr ''test_repo'')]"

text \<open>
  A link header whose \<^verbatim>\<open>rel="last"\<close> entry, for page 5, comes before its \<^verbatim>\<open>rel="next"\<close>
  entry, for page 2; and a link header whose one entry has no page number.
\<close>

definition LAST_FIRST_HEADER :: string where
  "LAST_FIRST_HEADER =
     ''<https://api.github.com/user/216758/followers?per_page=1&page=5>; rel=\"last\", ''
     @ ''<https://api.github.com/user/216758/followers?per_page=1&page=2>; rel=\"next\"''"

definition UNPAGED_HEADER :: string where
  "UNPAGED_HEADER = ''<https://api.github.com/user/216758/followers>; rel=\"last\"''"

text \<open>An ok response with the body \<open>v\<close> and the link header \<open>h\<close>.\<close>

definition ok_with_link :: "pyval \<Rightarrow> string \<Rightarrow> response option" where
  "ok_with_link v h = Some \<lparr>ok = True, body = v, headers = [(''link'', h)]\<rparr>"

text \<open>A Github side whose one repository of the organization \<^verbatim>\<open>test\<close> has two topics.\<close>

definition topics_remote :: "string \<Rightarrow> (string \<times> string) list \<Rightarrow> response option" where
  "topics_remote u hdrs =
     (if u = ''https://api.github.com/orgs/test/repos?per_page=100''
        then ok_json (PList [PDict [(''name'', PStr ''test_repo''), (''fork'', PBool True),
                                    (''topics'', PList [PStr ''flask'', PStr ''api'']),
                                    (''watchers'', PInt 1)]])
      else if u = ''https://api.github.com/repos/test/test_repo/languages''
        then ok_json (PDict [(''PHP'', PInt 1)])
      else ok_json (PList [PDict []]))"
section \<open>Sequences of pages\<close>

text \<open>
  \<open>served_pages so requests_get link w pages = Some (nexts, w')\<close>: from the world \<open>w\<close> on,
  the request for \<open>link\<close> and then the requests for the \<^verbatim>\<open>next\<close> field of each page
  received are answered by ok responses whose \<^verbatim>\<open>values\<close> are the record lists \<open>pages\<close>, in
  this order, each with a true \<^verbatim>\<open>next\<close> field; \<open>nexts\<close> are these fields and \<open>w'\<close> is the
  world after the requests.
\<close>

fun served_pages ::
  "set_order \<Rightarrow> 'w transport \<Rightarrow> pyval \<Rightarrow> 'w \<Rightarrow> pyval list list \<Rightarrow> (pyval list \<times> 'w) option" where
  "served_pages so requests_get link w [] = Some ([], w)"
| "served_pages so requests_get link w (records # rest) =
     (case requests_get (py_str so link) [] w of
        (None, w') \<Rightarrow> None
      | (Some res, w') \<Rightarrow>
          if ok res \<and> py_getitem (body res) ''values'' = Inr (PList records)
          then (case py_get (body res) ''next'' of
                  Inl e \<Rightarrow> None
                | Inr nxt \<Rightarrow>
                    if truthy nxt
                    then map_option (\<lambda>r. (nxt # fst r, snd r))
                           (served_pages so requests_get nxt w' rest)
                    else None)
          else None)"

text \<open>The URL of page \<open>k\<close> of \<open>link\<close>.\<close>

definition page_url :: "string \<Rightarrow> int \<Rightarrow> string" where
  "page_url link k = link @ ''&page='' @ show_int k"

text \<open>
  \<open>served_numbered requests_get link k w pages = Some w'\<close>: from \<open>w\<close> on, the requests for
  the pages \<open>k\<close>, \<open>k + 1\<close>, ... of \<open>link\<close> are answered by ok responses whose bodies are
  the record lists \<open>pages\<close>.
\<close>

fun served_numbered ::
  "'w transport \<Rightarrow> string \<Rightarrow> int \<Rightarrow> 'w \<Rightarrow> pyval list list \<Rightarrow> 'w option" where
  "served_numbered requests_get link k w [] = Some w"
| "served_numbered requests_get link k w (records # rest) =
     (case requests_get (page_url link k) [] w of
        (None, w') \<Rightarrow> None
      | (Some res, w') \<Rightarrow>
          if ok res \<and> body res = PList records
          then served_numbered requests_get link (k + 1) w' rest
          else None)"

section \<open>The merge function on a store of objects\<close>

text \<open>
  To speak about mutation, the dicts, sets and lists are objects in a store, and a dict
  entry holds either an immediate value (a number, a string, \<^verbatim>\<open>None\<close>) or a reference to
  an object. A reference is an index into the store; a new object is put at its end.
\<close>

datatype slot = Imm pyval | Ref nat

datatype obj = ODict "(string \<times> slot) list" | OSet "pyval list" | OList "pyval list"

type_synonym store = "obj list"

text \<open>A statement on the store returns a value or raises, and leaves a store.\<close>

type_synonym 'a stmt = "store \<Rightarrow> (error + 'a) \<times> store"

definition bindS :: "'a stmt \<Rightarrow> ('a \<Rightarrow> 'b stmt) \<Rightarrow> 'b stmt" where
  "bindS m f h = (case m h of (Inl e, h') \<Rightarrow> (Inl e, h') | (Inr x, h') \<Rightarrow> f x h')"

definition pure :: "error + 'a \<Rightarrow> 'a stmt" where
  "pure r h = (r, h)"

definition alloc :: "obj \<Rightarrow> nat stmt" where
  "alloc ob h = (Inr (length h), h @ [ob])"

text \<open>Reading an object; a reference always points into the store.\<close>

definition load :: "nat \<Rightarrow> obj stmt" where
  "load a h = (if a < length h then Inr (h ! a) else Inl TypeError, h)"

definition put :: "nat \<Rightarrow> obj \<Rightarrow> unit stmt" where
  "put a ob h = (Inr (), h[a := ob])"

text \<open>\<^verbatim>\<open>x[k]\<close>.\<close>

fun slot_getitem :: "slot \<Rightarrow> string \<Rightarrow> slot stmt" where
  "slot_getitem (Imm v) k = pure (bindE (py_getitem v k) (\<lambda>x. Inr (Imm x)))"
| "slot_getitem (Ref a) k =
     bindS (load a) (\<lambda>ob.
       case ob of
         ODict d \<Rightarrow> pure (case map_of d k of None \<Rightarrow> Inl KeyError | Some v \<Rightarrow> Inr v)
       | OSet xs \<Rightarrow> pure (Inl TypeError)
       | OList xs \<Rightarrow> pure (Inl TypeError))"

text \<open>\<^verbatim>\<open>x[k] = v\<close>: the dict object is changed in place.\<close>

fun slot_setitem :: "slot \<Rightarrow> string \<Rightarrow> slot \<Rightarrow> unit stmt" where
  "slot_setitem (Imm x) k v = pure (Inl TypeError)"
| "slot_setitem (Ref a) k v =
     bindS (load a) (\<lambda>ob.
       case ob of
         ODict d \<Rightarrow> put a (ODict (AList.update k v d))
       | OSet xs \<Rightarrow> pure (Inl TypeError)
       | OList xs \<Rightarrow> pure (Inl TypeError))"

text \<open>Iterating over \<open>x\<close>, and \<^verbatim>\<open>len(x)\<close>.\<close>

fun slot_iter :: "set_order \<Rightarrow> slot \<Rightarrow> pyval list stmt" where
  "slot_iter so (Imm v) = pure (py_iter so v)"
| "slot_iter so (Ref a) =
     bindS (load a) (\<lambda>ob.
       case ob of
         ODict d \<Rightarrow> pure (Inr (map (\<lambda>kv. PStr (fst kv)) d))
       | OSet xs \<Rightarrow> pure (Inr (iter_order so xs))
       | OList xs \<Rightarrow> pure (Inr xs))"

fun slot_len :: "slot \<Rightarrow> nat stmt" where
  "slot_len (Imm v) = pure (py_len v)"
| "slot_len (Ref a) =
     bindS (load a) (\<lambda>ob.
       case ob of
         ODict d \<Rightarrow> pure (Inr (length d))
       | OSet xs \<Rightarrow> pure (Inr (length xs))
       | OList xs \<Rightarrow> pure (Inr (length xs)))"

text \<open>\<^verbatim>\<open>a + b\<close>: two list objects give a new list object.\<close>

fun slot_add :: "slot \<Rightarrow> slot \<Rightarrow> slot stmt" where
  "slot_add (Imm a) (Imm b) = pure (bindE (py_add a b) (\<lambda>x. Inr (Imm x)))"
| "slot_add (Ref a) (Ref b) =
     bindS (load a) (\<lambda>oa. bindS (load b) (\<lambda>ob.
       case (oa, ob) of
         (OList xs, OList ys) \<Rightarrow> bindS (alloc (OList (xs @ ys))) (\<lambda>l. pure (Inr (Ref l)))
       | _ \<Rightarrow> pure (Inl TypeError)))"
| "slot_add a b = pure (Inl TypeError)"

text \<open>\<^verbatim>\<open>list(x)\<close>: a new list object.\<close>

definition slot_list :: "set_order \<Rightarrow> slot \<Rightarrow> slot stmt" where
  "slot_list so x = bindS (slot_iter so x) (\<lambda>items. bindS (alloc (OList items)) (\<lambda>l. pure (Inr (Ref l))))"

text \<open>\<^verbatim>\<open>s.update(x)\<close>: the set object \<open>s\<close> is changed in place.\<close>

definition set_update_obj :: "set_order \<Rightarrow> nat \<Rightarrow> slot \<Rightarrow> unit stmt" where
  "set_update_obj so s x =
     bindS (slot_iter so x) (\<lambda>items.
     bindS (load s) (\<lambda>ob.
       case ob of
         OSet xs \<Rightarrow> (case set_update xs items of (r, xs') \<Rightarrow> bindS (put s (OSet xs')) (\<lambda>u. pure r))
       | ODict d \<Rightarrow> pure (Inl AttributeError)
       | OList ys \<Rightarrow> pure (Inl AttributeError)))"

text \<open>
  \<^verbatim>\<open>combine(bitbucket, github)\<close> with its arguments given as references, one definition
  for each group of statements; \<open>res\<close> is the reference to the result dict.
\<close>

text \<open>\<^verbatim>\<open>results = {'languages': {}, 'topics': {}, 'repos': {}}\<close>.\<close>

definition new_results :: "nat stmt" where
  "new_results =
     bindS (alloc (ODict [])) (\<lambda>d1.
     bindS (alloc (ODict [])) (\<lambda>d2.
     bindS (alloc (ODict [])) (\<lambda>d3.
     alloc (ODict [(''languages'', Ref d1), (''topics'', Ref d2), (''repos'', Ref d3)]))))"

text \<open>\<^verbatim>\<open>results['followers'] = bitbucket['followers'] + github['followers']\<close>.\<close>

definition merge_followers :: "nat \<Rightarrow> nat \<Rightarrow> nat \<Rightarrow> unit stmt" where
  "merge_followers bitbucket github res =
     bindS (slot_getitem (Ref bitbucket) ''followers'') (\<lambda>bf.
     bindS (slot_getitem (Ref github) ''followers'') (\<lambda>gf.
     bindS (slot_add bf gf) (\<lambda>v.
     slot_setitem (Ref res) ''followers'' v)))"

text \<open>The five statements on \<^verbatim>\<open>languages\<close>, from \<^verbatim>\<open>languages = set()\<close> on.\<close>

definition merge_languages :: "set_order \<Rightarrow> nat \<Rightarrow> nat \<Rightarrow> nat \<Rightarrow> unit stmt" where
  "merge_languages so bitbucket github res =
     bindS (alloc (OSet [])) (\<lambda>langs.
     bindS (slot_getitem (Ref bitbucket) ''languages'') (\<lambda>bl.
     bindS (set_update_obj so langs bl) (\<lambda>u.
     bindS (slot_getitem (Ref github) ''languages'') (\<lambda>gl.
     bindS (set_update_obj so langs gl) (\<lambda>u.
     bindS (slot_list so (Ref langs)) (\<lambda>v.
     bindS (slot_getitem (Ref res) ''languages'') (\<lambda>rl.
     bindS (slot_setitem rl ''list'' v) (\<lambda>u.
     bindS (slot_getitem (Ref res) ''languages'') (\<lambda>rl.
     bindS (slot_getitem rl ''list'') (\<lambda>rll.
     bindS (slot_len rll) (\<lambda>n.
     bindS (slot_getitem (Ref res) ''languages'') (\<lambda>rl.
     slot_setitem rl ''count'' (Imm (PInt (int n)))))))))))))))"

text \<open>
  \<^verbatim>\<open>results['topics']['list'] = list(github['topics'])\<close> and
  \<^verbatim>\<open>results['topics']['count'] = len(github['topics'])\<close>.
\<close>

definition merge_topics :: "set_order \<Rightarrow> nat \<Rightarrow> nat \<Rightarrow> unit stmt" where
  "merge_topics so github res =
     bindS (slot_getitem (Ref github) ''topics'') (\<lambda>gt.
     bindS (slot_list so gt) (\<lambda>v.
     bindS (slot_getitem (Ref res) ''topics'') (\<lambda>rt.
     bindS (slot_setitem rt ''list'' v) (\<lambda>u.
     bindS (slot_getitem (Ref github) ''topics'') (\<lambda>gt.
     bindS (slot_len gt) (\<lambda>n.
     bindS (slot_getitem (Ref res) ''topics'') (\<lambda>rt.
     slot_setitem rt ''count'' (Imm (PInt (int n))))))))))"

text \<open>
  \<^verbatim>\<open>results['repos'][k] = bitbucket['repos'][k] + github['repos'][k]\<close>, which the source
  writes once for \<^verbatim>\<open>'forked'\<close> and once for \<^verbatim>\<open>'unforked'\<close>.
\<close>

definition merge_repos :: "string \<Rightarrow> nat \<Rightarrow> nat \<Rightarrow> nat \<Rightarrow> unit stmt" where
  "merge_repos k bitbucket github res =
     bindS (slot_getitem (Ref bitbucket) ''repos'') (\<lambda>br.
     bindS (slot_getitem br k) (\<lambda>bk.
     bindS (slot_getitem (Ref github) ''repos'') (\<lambda>gr.
     bindS (slot_getitem gr k) (\<lambda>gk.
     bindS (slot_add bk gk) (\<lambda>v.
     bindS (slot_getitem (Ref res) ''repos'') (\<lambda>rr.
     slot_setitem rr k v))))))"

text \<open>
  \<^verbatim>\<open>results['repos']['count'] = results['repos']['forked'] + results['repos']['unforked']\<close>.
\<close>

definition merge_repos_count :: "nat \<Rightarrow> unit stmt" where
  "merge_repos_count res =
     bindS (slot_getitem (Ref res) ''repos'') (\<lambda>rr.
     bindS (slot_getitem rr ''forked'') (\<lambda>rk.
     bindS (slot_getitem (Ref res) ''repos'') (\<lambda>rr.
     bindS (slot_getitem rr ''unforked'') (\<lambda>ru.
     bindS (slot_add rk ru) (\<lambda>v.
     bindS (slot_getitem (Ref res) ''repos'') (\<lambda>rr.
     slot_setitem rr ''count'' v))))))"

text \<open>\<^verbatim>\<open>results['watchers'] = bitbucket['watchers'] + github['watchers']\<close>.\<close>

definition merge_watchers :: "nat \<Rightarrow> nat \<Rightarrow> nat \<Rightarrow> unit stmt" where
  "merge_watchers bitbucket github res =
     bindS (slot_getitem (Ref bitbucket) ''watchers'') (\<lambda>bw.
     bindS (slot_getitem (Ref github) ''watchers'') (\<lambda>gw.
     bindS (slot_add bw gw) (\<lambda>v.
     slot_setitem (Ref res) ''watchers'' v)))"

text \<open>The function: the groups in the order of the source, then \<^verbatim>\<open>return results\<close>.\<close>

definition combine_store :: "set_order \<Rightarrow> nat \<Rightarrow> nat \<Rightarrow> nat stmt" where
  "combine_store so bitbucket github =
     bindS new_results (\<lambda>res.
     bindS (merge_followers bitbucket github res) (\<lambda>u.
     bindS (merge_languages so bitbucket github res) (\<lambda>u.
     bindS (merge_topics so github res) (\<lambda>u.
     bindS (merge_repos ''forked'' bitbucket github res) (\<lambda>u.
     bindS (merge_repos ''unforked'' bitbucket github res) (\<lambda>u.
     bindS (merge_repos_count res) (\<lambda>u.
     bindS (merge_watchers bitbucket github res) (\<lambda>u.
     pure (Inr res)))))))))"

text \<open>The references held by an object.\<close>

fun slot_refs :: "slot \<Rightarrow> nat set" where
  "slot_refs (Imm v) = {}"
| "slot_refs (Ref a) = {a}"

fun obj_refs :: "obj \<Rightarrow> nat set" where
  "obj_refs (ODict d) = (\<Union>kv\<in>set d. slot_refs (snd kv))"
| "obj_refs (OSet xs) = {}"
| "obj_refs (OList xs) = {}"

text \<open>
  The inputs of test/test\_combine.py laid out in a store: the Bitbucket dict at 2, the
  Github dict at 6.
\<close>

definition test_store :: store where
  "test_store =
     [OSet [PStr ''python''],
      ODict [(''forked'', Imm (PInt 1)), (''unforked'', Imm (PInt 1))],
      ODict [(''followers'', Imm (PInt 1)), (''languages'', Ref 0), (''repos'', Ref 1),
             (''watchers'', Imm (PInt 1))],
      OSet [PStr ''javascript''],
      ODict [(''forked'', Imm (PInt 1)), (''unforked'', Imm (PInt 1))],
      OSet [PStr ''flask''],
      ODict [(''followers'', Imm (PInt 1)), (''languages'', Ref 3), (''repos'', Ref 4),
             (''topics'', Ref 5), (''watchers'', Imm (PInt 1))]]"

section \<open>Properties of the merge function\<close>

text \<open>Whatever the process, iterating over a set gives its elements, each once.\<close>

lemma iter_order_distinct [simp]: "distinct (iter_order so xs) \<longleftrightarrow> distinct xs"
proof -
  have "distinct (iter_order so xs) \<longleftrightarrow> card (set (iter_order so xs)) = length (iter_order so xs)"
    using distinct_card card_distinct by blast
  also have "\<dots> \<longleftrightarrow> card (set xs) = length xs"
    by simp
  also have "\<dots> \<longleftrightarrow> distinct xs"
    using distinct_card card_distinct by blast
  finally show ?thesis .
qed

lemma iter_order_distinct_map [simp]:
  "distinct (map f (iter_order so xs)) \<longleftrightarrow> distinct (map f xs)"
proof -
  have "distinct (map f (iter_order so xs)) \<longleftrightarrow>
      card (set (map f (iter_order so xs))) = length (map f (iter_order so xs))"
    using distinct_card card_distinct by blast
  also have "\<dots> \<longleftrightarrow> card (set (map f xs)) = length (map f xs)"
    by simp
  also have "\<dots> \<longleftrightarrow> distinct (map f xs)"
    using distinct_card card_distinct by blast
  finally show ?thesis .
qed

lemma iter_order_Nil [simp]: "iter_order so [] = []"
  by (simp add: iter_order_def)

lemma iter_order_single [simp]: "iter_order so [x] = [x]"
proof -
  have "ys = [x]" if "length ys = 1" "set ys = {x}" for ys :: "pyval list"
    using that by (cases ys) auto
  then show ?thesis
    by (auto simp: iter_order_def)
qed

lemma iter_order_id [simp]: "iter_order id xs = xs" "iter_order (\<lambda>xs. xs) xs = xs"
  by (simp_all add: iter_order_def)

lemma bindE_Inr [simp]: "bindE (Inr x) f = f x"
  by (simp add: bindE_def)

lemma bindE_Inl [simp]: "bindE (Inl e) f = Inl e"
  by (simp add: bindE_def)

lemma bindE_eq_Inr: "bindE m f = Inr y \<longleftrightarrow> (\<exists>x. m = Inr x \<and> f x = Inr y)"
  by (cases m) simp_all

lemma bindE_InrE:
  assumes "bindE m f = Inr y"
  obtains x where "m = Inr x" "f x = Inr y"
  using assms by (cases m) simp_all

lemma dict_getitem_eq_Inr [simp]: "dict_getitem d k = Inr v \<longleftrightarrow> map_of d k = Some v"
  by (simp add: dict_getitem_def split: option.splits)

lemma dict_getitem_Some: "map_of d k = Some v \<Longrightarrow> dict_getitem d k = Inr v"
  by (simp add: dict_getitem_def)

lemma set_add_hashable:
  "hashable x \<Longrightarrow> set_add x s = Inr (if hash_key x \<in> hash_key ` set s then s else s @ [x])"
  by (simp add: set_add_def)

text \<open>
  Updating a set with hashable elements succeeds; the result holds the old and the new
  elements, each once up to Python's equality.
\<close>

lemma set_update_ok:
  assumes "\<forall>x\<in>set xs. hashable x"
  shows "\<exists>L. set_update s xs = (Inr (), L) \<and> hash_key ` set L = hash_key ` (set s \<union> set xs)
           \<and> set s \<subseteq> set L \<and> set L \<subseteq> set s \<union> set xs
           \<and> (distinct (map hash_key s) \<longrightarrow> distinct (map hash_key L))"
  using assms
proof (induction xs arbitrary: s)
  case Nil
  then show ?case by simp
next
  case (Cons x xs)
  let ?s' = "if hash_key x \<in> hash_key ` set s then s else s @ [x]"
  from Cons.prems have hx: "hashable x" and hxs: "\<forall>y\<in>set xs. hashable y" by simp_all
  from Cons.IH [OF hxs, of ?s'] obtain L where
    L: "set_update ?s' xs = (Inr (), L)" "hash_key ` set L = hash_key ` (set ?s' \<union> set xs)"
       "set ?s' \<subseteq> set L" "set L \<subseteq> set ?s' \<union> set xs"
       "distinct (map hash_key ?s') \<longrightarrow> distinct (map hash_key L)"
    by blast
  have "set_update s (x # xs) = (Inr (), L)"
    using L(1) hx by (simp add: set_add_hashable)
  moreover have "hash_key ` set L = hash_key ` (set s \<union> set (x # xs))"
    using L(2) by (auto split: if_splits)
  moreover have "set s \<subseteq> set L"
    using L(3) by (auto split: if_splits)
  moreover have "set L \<subseteq> set s \<union> set (x # xs)"
    using L(4) by (auto split: if_splits)
  moreover have "distinct (map hash_key s) \<longrightarrow> distinct (map hash_key L)"
    using L(5) by (auto split: if_splits)
  ultimately show ?case by blast
qed

text \<open>The merged dict, once the two language sets have been united.\<close>

lemma combine_wellformed:
  assumes A: "map_of A ''followers'' = Some (PInt fa)" "map_of A ''languages'' = Some (PSet la)"
      "map_of A ''repos'' = Some (PDict ra)" "map_of ra ''forked'' = Some (PInt ka)"
      "map_of ra ''unforked'' = Some (PInt ua)" "map_of A ''watchers'' = Some (PInt wa)"
    and B: "map_of B ''followers'' = Some (PInt fb)" "map_of B ''languages'' = Some (PSet lb)"
      "map_of B ''repos'' = Some (PDict rb)" "map_of rb ''forked'' = Some (PInt kb)"
      "map_of rb ''unforked'' = Some (PInt ub)" "map_of B ''watchers'' = Some (PInt wb)"
      "map_of B ''topics'' = Some tv" "tv = PSet tb \<or> tv = PList tb"
    and L: "set_updated [] (iter_order so la) = Inr L1" "set_updated L1 (iter_order so lb) = Inr L"
  shows "combine so A B = Inr
           [(''languages'', PDict [(''list'', PList (iter_order so L)),
                                   (''count'', PInt (int (length L)))]),
            (''topics'', PDict [(''list'', PList (if tv = PSet tb then iter_order so tb else tb)),
                                (''count'', PInt (int (length tb)))]),
            (''repos'', PDict [(''forked'', PInt (ka + kb)), (''unforked'', PInt (ua + ub)),
                               (''count'', PInt (ka + kb + (ua + ub)))]),
            (''followers'', PInt (fa + fb)), (''watchers'', PInt (wa + wb))]"
proof -
  have tv: "py_iter so tv = Inr (if tv = PSet tb then iter_order so tb else tb)"
    "py_len tv = Inr (length tb)"
    using B(8) by auto
  show ?thesis
    unfolding combine_def Let_def
    by (simp add: dict_getitem_Some A B(1-7) L tv dict_setitem2_def dict_getitem_def)
qed

text \<open>
  C8. For well-formed finalized results \<open>A\<close> (Source-A shaped) and \<open>B\<close> (Source-B shaped,
  with topics), in whatever order the process iterates over sets, the merge function
  returns the dict whose followers, watchers, forked and unforked entries are the sums of
  the inputs' entries, whose languages list \<open>L\<close> is the union of both language sets
  without duplicates with languages.count its length, and whose topics list \<open>T\<close> and count
  are those of \<open>B\<close> alone: \<open>T\<close> holds the topics of \<open>B\<close>, as many as \<open>B\<close> has, and is the
  very list when \<open>B\<close> gives its topics as a list. Elements are compared as Python compares
  them (\<open>hash_key\<close>); for sets without booleans the languages list is the plain union.
\<close>

theorem combine_merges_fields:
  assumes A: "map_of A ''followers'' = Some (PInt fa)" "map_of A ''languages'' = Some (PSet la)"
      "map_of A ''repos'' = Some (PDict ra)" "map_of ra ''forked'' = Some (PInt ka)"
      "map_of ra ''unforked'' = Some (PInt ua)" "map_of A ''watchers'' = Some (PInt wa)"
    and B: "map_of B ''followers'' = Some (PInt fb)" "map_of B ''languages'' = Some (PSet lb)"
      "map_of B ''repos'' = Some (PDict rb)" "map_of rb ''forked'' = Some (PInt kb)"
      "map_of rb ''unforked'' = Some (PInt ub)" "map_of B ''watchers'' = Some (PInt wb)"
      "map_of B ''topics'' = Some tv" "tv = PSet tb \<or> tv = PList tb"
    and H: "\<forall>x\<in>set la \<union> set lb. hashable x"
  shows "\<exists>L T. combine so A B = Inr
           [(''languages'', PDict [(''list'', PList L), (''count'', PInt (int (length L)))]),
            (''topics'', PDict [(''list'', PList T), (''count'', PInt (int (length tb)))]),
            (''repos'', PDict [(''forked'', PInt (ka + kb)), (''unforked'', PInt (ua + ub)),
                               (''count'', PInt (ka + kb + (ua + ub)))]),
            (''followers'', PInt (fa + fb)), (''watchers'', PInt (wa + wb))]
          \<and> hash_key ` set L = hash_key ` (set la \<union> set lb)
          \<and> distinct (map hash_key L)
          \<and> set L \<subseteq> set la \<union> set lb
          \<and> ((\<forall>x\<in>set la \<union> set lb. \<forall>b. x \<noteq> PBool b) \<longrightarrow>
                 set L = set la \<union> set lb \<and> distinct L)
          \<and> set T = set tb \<and> length T = length tb \<and> (tv = PList tb \<longrightarrow> T = tb)"
proof -
  from H have "\<forall>x\<in>set (iter_order so la). hashable x" by simp
  from set_update_ok [OF this, of "[]"] obtain L1 where
    L1: "set_updated [] (iter_order so la) = Inr L1" "hash_key ` set L1 = hash_key ` set la"
        "set L1 \<subseteq> set la" "distinct (map hash_key L1)"
    by (auto simp: set_updated_def)
  from H have "\<forall>x\<in>set (iter_order so lb). hashable x" by simp
  from set_update_ok [OF this, of L1] obtain L0 where
    L0: "set_updated L1 (iter_order so lb) = Inr L0"
       "hash_key ` set L0 = hash_key ` (set L1 \<union> set lb)"
       "set L0 \<subseteq> set L1 \<union> set lb" "distinct (map hash_key L0)"
    using L1(4) by (auto simp: set_updated_def)
  define L where "L = iter_order so L0"
  define T where "T = (if tv = PSet tb then iter_order so tb else tb)"
  have len: "length L = length L0" and dist: "distinct (map hash_key L)"
    using L0(4) by (simp_all add: L_def)
  have img: "hash_key ` set L = hash_key ` (set la \<union> set lb)"
    using L0(2) L1(2) by (simp add: image_Un L_def)
  have sub: "set L \<subseteq> set la \<union> set lb"
    using L0(3) L1(3) by (auto simp: L_def)
  have plain: "set L = set la \<union> set lb \<and> distinct L"
    if nb: "\<forall>x\<in>set la \<union> set lb. \<forall>b. x \<noteq> PBool b"
  proof -
    have id: "hash_key x = x" if "x \<in> set la \<union> set lb" for x
      using nb that by (cases x) auto
    then have "hash_key ` (set la \<union> set lb) = set la \<union> set lb"
      by force
    moreover have "hash_key ` set L = set L"
      using id sub by force
    moreover have "map hash_key L = L"
      using id sub by (intro map_idI) auto
    ultimately show ?thesis
      using img dist by simp
  qed
  have T: "set T = set tb" "length T = length tb" "tv = PList tb \<longrightarrow> T = tb"
    by (simp_all add: T_def)
  have "combine so A B = Inr
           [(''languages'', PDict [(''list'', PList L), (''count'', PInt (int (length L)))]),
            (''topics'', PDict [(''list'', PList T), (''count'', PInt (int (length tb)))]),
            (''repos'', PDict [(''forked'', PInt (ka + kb)), (''unforked'', PInt (ua + ub)),
                               (''count'', PInt (ka + kb + (ua + ub)))]),
            (''followers'', PInt (fa + fb)), (''watchers'', PInt (wa + wb))]"
    using combine_wellformed [OF A B L1(1) L0(1)] by (simp add: L_def T_def)
  with img dist sub plain T show ?thesis by blast
qed

text \<open>The theorem at the inputs of test/test\_combine.py (Scenario 5).\<close>

theorem combine_merges_fields_witness:
  "\<exists>L. combine id test_bitbucket test_github = Inr
           [(''languages'', PDict [(''list'', PList L), (''count'', PInt 2)]),
            (''topics'', PDict [(''list'', PList [PStr ''flask'']), (''count'', PInt 1)]),
            (''repos'', PDict [(''forked'', PInt 2), (''unforked'', PInt 2), (''count'', PInt 4)]),
            (''followers'', PInt 2), (''watchers'', PInt 2)]
       \<and> set L = {PStr ''python'', PStr ''javascript''} \<and> distinct L"
proof -
  from combine_merges_fields [where so = id and A = test_bitbucket and B = test_github
      and fa = 1 and la = "[PStr ''python'']" and ra = "[(''forked'', PInt 1), (''unforked'', PInt 1)]"
      and ka = 1 and ua = 1 and wa = 1
      and fb = 1 and lb = "[PStr ''javascript'']" and rb = "[(''forked'', PInt 1), (''unforked'', PInt 1)]"
      and kb = 1 and ub = 1 and wb = 1 and tv = "PSet [PStr ''flask'']" and tb = "[PStr ''flask'']"]
  obtain L T where
    L: "combine id test_bitbucket test_github = Inr
           [(''languages'', PDict [(''list'', PList L), (''count'', PInt (int (length L)))]),
            (''topics'', PDict [(''list'', PList T), (''count'', PInt 1)]),
            (''repos'', PDict [(''forked'', PInt 2), (''unforked'', PInt 2), (''count'', PInt 4)]),
            (''followers'', PInt 2), (''watchers'', PInt 2)]"
       "set L = {PStr ''javascript'', PStr ''python''}" "distinct L"
       "set T = {PStr ''flask''}" "length T = 1"
    by (auto simp: test_bitbucket_def test_github_def)
  have "card (set L) = 2"
    using L(2) by simp
  then have "length L = 2"
    using distinct_card [OF L(3)] by simp
  moreover have "T = [PStr ''flask'']"
    using L(4,5) by (cases T) auto
  ultimately show ?thesis
    using L(1,2,3) by auto
qed
section \<open>Properties of the collectors\<close>

subsection \<open>Unfolding the statements\<close>

lemmas prog_defs = seq_def ret_def lift_def total_def try_except_def in_world_def on_self_def read_self_def assign_def

text \<open>One round of the pagination loop, given the outcome of its request.\<close>

lemma while_unfold:
  "bitbucket_make_api_call so rg link w = (r, w') \<Longrightarrow>
   get_all_results_while so rg data link acc w =
     (case r of
        Inl e \<Rightarrow> Some (Inl e, acc, w')
      | Inr page_results \<Rightarrow>
          (case bindE (get_result page_results data) (py_iadd so acc) of
             Inl e \<Rightarrow> Some (Inl e, acc, w')
           | Inr acc' \<Rightarrow>
               (case py_get page_results ''next'' of
                  Inl e \<Rightarrow> Some (Inl e, acc', w')
                | Inr link' \<Rightarrow>
                    if truthy link'
                    then get_all_results_while so rg data link' acc' w'
                    else Some (Inr (), acc', w'))))"
  by (subst get_all_results_while.simps) simp

lemmas bitbucket_defs =
  bitbucket_make_response_def bitbucket_process_repos_def bitbucket_process_repo_def
  bitbucket_update_languages_def bitbucket_update_repo_count_def
  bitbucket_update_watchers_count_def bitbucket_get_followers_count_def repos_incr_def
  get_all_results_def bitbucket_make_api_call_def get_result_def repos_value_def

lemmas value_defs =
  dict_getitem_def set_add_def dict_incr_def int_iadd_def py_split_ws_def is_space_def

subsection \<open>No connection\<close>

lemma bitbucket_call_refused:
  assumes "\<forall>u h w. fst (rg u h w) = None"
  shows "bitbucket_make_api_call so rg link w = (Inl ConnectionResetError, snd (rg (py_str so link) [] w))"
  using assms by (auto simp: bitbucket_make_api_call_def split: prod.splits option.splits) (metis fst_conv option.distinct(1))

lemma github_call_refused:
  assumes "\<forall>u h w. fst (rg u h w) = None"
  shows "github_make_api_call rg link hdrs w = (Inl ConnectionResetError, snd (rg link hdrs w))"
  using assms by (auto simp: github_make_api_call_def split: prod.splits option.splits) (metis fst_conv option.distinct(1))

lemma get_all_results_refused:
  assumes "\<forall>u h w. fst (rg u h w) = None"
  shows "get_all_results so rg link data w = Some (Inl ConnectionResetError, snd (rg (py_str so link) [] w))"
  by (simp add: get_all_results_def while_unfold [OF bitbucket_call_refused [OF assms]])

lemma get_all_repos_refused:
  assumes "\<forall>u h w. fst (rg u h w) = None"
  shows "get_all_repos so rg link w = Some (Inl ConnectionResetError, snd (rg link [] w))"
  by (simp add: get_all_repos_def get_all_repos_try_def prog_defs github_call_refused [OF assms])

text \<open>
  C5. When every request raises the connectivity failure, \<^verbatim>\<open>make_response\<close> of either
  collector does not raise and returns the default result: followers 0, no languages,
  repos forked 0 and unforked 0, watchers 0, and for Github an empty topics list.
\<close>

theorem make_response_no_connection:
  assumes "\<forall>u h w. fst (rg u h w) = None"
  shows "map_option fst (bitbucket_make_response so rg (Bitbucket organization version, w)) =
           Some (Inr [(''followers'', PInt 0), (''languages'', PSet []),
                      (''repos'', PDict [(''forked'', PInt 0), (''unforked'', PInt 0)]),
                      (''watchers'', PInt 0)])
       \<and> map_option fst (github_make_response so rg (Github organization, w)) =
           Some (Inr [(''followers'', PInt 0), (''languages'', PSet []),
                      (''repos'', PDict [(''forked'', PInt 0), (''unforked'', PInt 0)]),
                      (''topics'', PList []), (''watchers'', PInt 0)])"
proof
  show "map_option fst (bitbucket_make_response so rg (Bitbucket organization version, w)) =
           Some (Inr [(''followers'', PInt 0), (''languages'', PSet []),
                      (''repos'', PDict [(''forked'', PInt 0), (''unforked'', PInt 0)]),
                      (''watchers'', PInt 0)])"
    by (simp add: bitbucket_make_response_def bitbucket_process_repos_def prog_defs
        get_all_results_refused [OF assms] Bitbucket_def repos_value_def)
  show "map_option fst (github_make_response so rg (Github organization, w)) =
           Some (Inr [(''followers'', PInt 0), (''languages'', PSet []),
                      (''repos'', PDict [(''forked'', PInt 0), (''unforked'', PInt 0)]),
                      (''topics'', PList []), (''watchers'', PInt 0)])"
    by (simp add: github_make_response_def github_process_repos_def prog_defs
        get_all_repos_refused [OF assms] Github_def repos_value_def)
qed

theorem make_response_no_connection_witness:
  "(\<forall>u h w. fst (stateless (\<lambda>u h. None) u h (w::unit)) = None)
   \<and> map_option fst (bitbucket_make_response id (stateless (\<lambda>u h. None)) (Bitbucket ''test'' ''2.0'', ())) =
           Some (Inr [(''followers'', PInt 0), (''languages'', PSet []),
                      (''repos'', PDict [(''forked'', PInt 0), (''unforked'', PInt 0)]),
                      (''watchers'', PInt 0)])
   \<and> map_option fst (github_make_response id (stateless (\<lambda>u h. None)) (Github ''test'', ())) =
           Some (Inr [(''followers'', PInt 0), (''languages'', PSet []),
                      (''repos'', PDict [(''forked'', PInt 0), (''unforked'', PInt 0)]),
                      (''topics'', PList []), (''watchers'', PInt 0)])"
proof -
  have h: "\<forall>u h w. fst (stateless (\<lambda>u h. None) u h (w::unit)) = None"
    by (simp add: stateless_def)
  show ?thesis
    using h make_response_no_connection [OF h, where so = id and organization = "''test''"
        and version = "''2.0''" and w = "()"] by simp
qed
subsection \<open>Pagination by the next link\<close>


lemma recording_call_ok:
  "rg (py_str so link) [] w = (Some res, w1) \<Longrightarrow> ok res \<Longrightarrow>
   bitbucket_make_api_call so (recording rg) link (w, log) = (Inr (body res), (w1, log @ [py_str so link]))"
  by (simp add: bitbucket_make_api_call_def recording_def)

lemma recording_call_invalid:
  "rg (py_str so link) [] w = (Some res, w1) \<Longrightarrow> \<not> ok res \<Longrightarrow>
   bitbucket_make_api_call so (recording rg) link (w, log) = (Inl ValueError, (w1, log @ [py_str so link]))"
  by (simp add: bitbucket_make_api_call_def recording_def)

lemma get_result_values:
  "py_getitem page ''values'' = Inr (PList records) \<Longrightarrow>
   get_result page data = Inr (if data then PList records else PInt (int (length records)))"
  by (simp add: get_result_def)

lemma served_pages_ConsE:
  assumes "served_pages so rg link w (records # rest) = Some (nexts, w')"
  obtains res w1 nxt nexts' where
    "rg (py_str so link) [] w = (Some res, w1)" "ok res"
    "py_getitem (body res) ''values'' = Inr (PList records)"
    "py_get (body res) ''next'' = Inr nxt" "truthy nxt"
    "served_pages so rg nxt w1 rest = Some (nexts', w')" "nexts = nxt # nexts'"
  using assms
  by (auto split: prod.splits option.splits if_splits sum.splits)

lemma while_served_records:
  assumes "served_pages so rg link w pages = Some (nexts, w')"
  shows "get_all_results_while so (recording rg) True link (PList acc) (w, log) =
         get_all_results_while so (recording rg) True (last (link # nexts)) (PList (acc @ concat pages))
           (w', log @ map (py_str so) (butlast (link # nexts)))"
  using assms
proof (induction pages arbitrary: link w acc log nexts)
  case Nil
  then show ?case by simp
next
  case (Cons records rest)
  from Cons.prems obtain res w1 nxt nexts' where
    s: "rg (py_str so link) [] w = (Some res, w1)" "ok res"
    "py_getitem (body res) ''values'' = Inr (PList records)"
    "py_get (body res) ''next'' = Inr nxt" "truthy nxt"
    "served_pages so rg nxt w1 rest = Some (nexts', w')" "nexts = nxt # nexts'"
    by (rule served_pages_ConsE)
  have call: "bitbucket_make_api_call so (recording rg) link (w, log) =
      (Inr (body res), (w1, log @ [py_str so link]))"
    using s(1,2) by (rule recording_call_ok [where rg = rg])
  have "get_all_results_while so (recording rg) True link (PList acc) (w, log) =
        get_all_results_while so (recording rg) True nxt (PList (acc @ records)) (w1, log @ [py_str so link])"
    using s(3,4,5) by (simp add: while_unfold [OF call] get_result_values)
  also have "\<dots> = get_all_results_while so (recording rg) True (last (nxt # nexts'))
       (PList ((acc @ records) @ concat rest))
       (w', (log @ [py_str so link]) @ map (py_str so) (butlast (nxt # nexts')))"
    by (rule Cons.IH [OF s(6)])
  finally show ?case
    using s(7) by simp
qed

lemma while_served_count:
  assumes "served_pages so rg link w pages = Some (nexts, w')"
  shows "get_all_results_while so (recording rg) False link (PInt n) (w, log) =
         get_all_results_while so (recording rg) False (last (link # nexts))
           (PInt (n + int (sum_list (map length pages))))
           (w', log @ map (py_str so) (butlast (link # nexts)))"
  using assms
proof (induction pages arbitrary: link w n log nexts)
  case Nil
  then show ?case by simp
next
  case (Cons records rest)
  from Cons.prems obtain res w1 nxt nexts' where
    s: "rg (py_str so link) [] w = (Some res, w1)" "ok res"
    "py_getitem (body res) ''values'' = Inr (PList records)"
    "py_get (body res) ''next'' = Inr nxt" "truthy nxt"
    "served_pages so rg nxt w1 rest = Some (nexts', w')" "nexts = nxt # nexts'"
    by (rule served_pages_ConsE)
  have call: "bitbucket_make_api_call so (recording rg) link (w, log) =
      (Inr (body res), (w1, log @ [py_str so link]))"
    using s(1,2) by (rule recording_call_ok [where rg = rg])
  have "get_all_results_while so (recording rg) False link (PInt n) (w, log) =
        get_all_results_while so (recording rg) False nxt (PInt (n + int (length records)))
          (w1, log @ [py_str so link])"
    using s(3,4,5) by (simp add: while_unfold [OF call] get_result_values)
  also have "\<dots> = get_all_results_while so (recording rg) False (last (nxt # nexts'))
       (PInt (n + int (length records) + int (sum_list (map length rest))))
       (w', (log @ [py_str so link]) @ map (py_str so) (butlast (nxt # nexts')))"
    by (rule Cons.IH [OF s(6)])
  finally show ?case
    using s(7) by (simp add: add.assoc)
qed

lemma log_snoc: "xs \<noteq> [] \<Longrightarrow> (log @ map f (butlast xs)) @ [f (last xs)] = log @ map f xs"
  by (metis append_butlast_last_id list.simps(9) map_append list.map(1) append_assoc)

lemma while_last_page:
  assumes "rg (py_str so l) [] w' = (Some res, w'')" "ok res"
    and "py_getitem (body res) ''values'' = Inr (PList records)"
    and "py_get (body res) ''next'' = Inr nxt" "\<not> truthy nxt"
  shows "get_all_results_while so (recording rg) True l (PList acc) (w', log) =
           Some (Inr (), PList (acc @ records), (w'', log @ [py_str so l]))"
    and "get_all_results_while so (recording rg) False l (PInt n) (w', log) =
           Some (Inr (), PInt (n + int (length records)), (w'', log @ [py_str so l]))"
  using assms(3,4,5)
  by (simp_all add: while_unfold [OF recording_call_ok [where rg = rg, OF assms(1,2)]] get_result_values)

lemma while_invalid_page:
  assumes "rg (py_str so l) [] w' = (Some res, w'')" "\<not> ok res"
  shows "get_all_results_while so (recording rg) data l acc (w', log) =
           Some (Inl ValueError, acc, (w'', log @ [py_str so l]))"
  by (simp add: while_unfold [OF recording_call_invalid [where rg = rg, OF assms(1,2)]])

text \<open>
  C7. When the pages of a sequence each name the next page in their \<^verbatim>\<open>next\<close> field, and the
  last page has no \<^verbatim>\<open>next\<close> field or a null (or otherwise false) one, \<^verbatim>\<open>get_all_results\<close>
  in record mode returns the concatenation of the pages' record lists in page order, and
  in count mode the sum of their lengths. The URLs it requests are the first link and
  then the \<^verbatim>\<open>next\<close> field of each page, in this order and nothing else.
\<close>

theorem cursor_pagination:
  assumes "served_pages so rg link w pages = Some (nexts, w')"
    and "rg (py_str so (last (link # nexts))) [] w' = (Some res, w'')" "ok res"
    and "py_getitem (body res) ''values'' = Inr (PList records)"
    and "py_get (body res) ''next'' = Inr nxt" "\<not> truthy nxt"
  shows "get_all_results so (recording rg) link True (w, log) =
           Some (Inr (PList (concat (pages @ [records]))), (w'', log @ map (py_str so) (link # nexts)))
       \<and> get_all_results so (recording rg) link False (w, log) =
           Some (Inr (PInt (int (sum_list (map length (pages @ [records]))))),
                 (w'', log @ map (py_str so) (link # nexts)))"
proof -
  let ?l = "last (link # nexts)" and ?b = "butlast (link # nexts)"
  have log: "(log @ map (py_str so) ?b) @ [py_str so ?l] = log @ map (py_str so) (link # nexts)"
    by (rule log_snoc) simp
  have "get_all_results_while so (recording rg) True link (PList []) (w, log) =
        get_all_results_while so (recording rg) True ?l (PList ([] @ concat pages)) (w', log @ map (py_str so) ?b)"
    by (rule while_served_records [OF assms(1)])
  also have "\<dots> = Some (Inr (), PList (([] @ concat pages) @ records),
                       (w'', (log @ map (py_str so) ?b) @ [py_str so ?l]))"
    by (rule while_last_page(1) [where rg = rg, OF assms(2-6)])
  finally have r: "get_all_results_while so (recording rg) True link (PList []) (w, log) =
        Some (Inr (), PList (concat (pages @ [records])), (w'', log @ map (py_str so) (link # nexts)))"
    unfolding log by simp
  have "get_all_results_while so (recording rg) False link (PInt 0) (w, log) =
        get_all_results_while so (recording rg) False ?l (PInt (0 + int (sum_list (map length pages))))
          (w', log @ map (py_str so) ?b)"
    by (rule while_served_count [OF assms(1)])
  also have "\<dots> = Some (Inr (), PInt (0 + int (sum_list (map length pages)) + int (length records)),
                       (w'', (log @ map (py_str so) ?b) @ [py_str so ?l]))"
    by (rule while_last_page(2) [where rg = rg, OF assms(2-6)])
  finally have c: "get_all_results_while so (recording rg) False link (PInt 0) (w, log) =
        Some (Inr (), PInt (int (sum_list (map length (pages @ [records])))),
              (w'', log @ map (py_str so) (link # nexts)))"
    unfolding log by simp
  show ?thesis
    by (simp add: get_all_results_def r c del: last.simps butlast.simps)
qed


theorem cursor_pagination_witness:
  "get_all_results id (recording scripted) (PStr ''url'') True
       ([ok_json (one_entry_page_next ''url2''), ok_json one_entry_page], []) =
     Some (Inr (PList [PDict [(''entry'', PStr ''data'')], PDict [(''entry'', PStr ''data'')]]),
           ([], [''url'', ''url2'']))
   \<and> get_all_results id (recording scripted) (PStr ''url'') False
       ([ok_json (one_entry_page_next ''url2''), ok_json one_entry_page], []) =
     Some (Inr (PInt 2), ([], [''url'', ''url2'']))"
  using cursor_pagination [where rg = scripted and link = "PStr ''url''"
      and w = "[ok_json (one_entry_page_next ''url2''), ok_json one_entry_page]"
      and pages = "[[PDict [(''entry'', PStr ''data'')]]]" and nexts = "[PStr ''url2'']"
      and w' = "[ok_json one_entry_page]" and w'' = "[]"
      and res = "\<lparr>ok = True, body = one_entry_page, headers = []\<rparr>"
      and records = "[PDict [(''entry'', PStr ''data'')]]" and nxt = PNone and log = "[]"]
  by (simp add: scripted_def ok_json_def one_entry_page_next_def one_entry_page_def dict_getitem_def)

subsection \<open>Pagination stops at an invalid resource\<close>

lemma github_recording_call_ok:
  "rg u hdrs w = (Some res, w1) \<Longrightarrow> ok res \<Longrightarrow>
   github_make_api_call (recording rg) u hdrs (w, log) = (Inr (body res, headers res), (w1, log @ [u]))"
  by (simp add: github_make_api_call_def recording_def)

lemma github_recording_call_invalid:
  "rg u hdrs w = (Some res, w1) \<Longrightarrow> \<not> ok res \<Longrightarrow>
   github_make_api_call (recording rg) u hdrs (w, log) = (Inl ValueError, (w1, log @ [u]))"
  by (simp add: github_make_api_call_def recording_def)

lemma page_served:
  assumes "rg (page_url link k) [] w = (Some res, w1)" "ok res" "body res = PList records"
  shows "get_all_repos_page so (recording rg) link k (acc, (w, log)) =
           Some (Inr (), (acc @ records, (w1, log @ [page_url link k])))"
  using github_recording_call_ok [where rg = rg, OF assms(1,2), of log] assms(3)
  by (simp add: get_all_repos_page_def prog_defs extend_results_def page_url_def)

lemma page_invalid:
  assumes "rg (page_url link k) [] w = (Some res, w1)" "\<not> ok res"
  shows "get_all_repos_page so (recording rg) link k (acc, (w, log)) =
           Some (Inl ValueError, (acc, (w1, log @ [page_url link k])))"
  using github_recording_call_invalid [where rg = rg, OF assms(1,2), of log]
  by (simp add: get_all_repos_page_def prog_defs extend_results_def page_url_def)

lemma for_each_served:
  assumes "served_numbered rg link k w pages = Some w2" "k + int (length pages) \<le> n + 1"
  shows "for_each (get_all_repos_page so (recording rg) link) [k..n] (acc, (w, log)) =
         for_each (get_all_repos_page so (recording rg) link) [k + int (length pages)..n]
           (acc @ concat pages, (w2, log @ map (page_url link) [k..k + int (length pages) - 1]))"
  using assms
proof (induction pages arbitrary: k w acc log)
  case Nil
  then show ?case by simp
next
  case (Cons records rest)
  from Cons.prems(1) obtain res w1 where
    s: "rg (page_url link k) [] w = (Some res, w1)" "ok res" "body res = PList records"
       "served_numbered rg link (k + 1) w1 rest = Some w2"
    by (auto split: prod.splits option.splits if_splits)
  from Cons.prems(2) have kn: "k \<le> n" and kn': "k + 1 + int (length rest) \<le> n + 1"
    by simp_all
  have up: "[k..n] = k # [k + 1..n]"
    using kn by (simp add: upto_rec1)
  have up2: "[k..k + int (length rest)] = k # [k + 1..k + int (length rest)]"
    by (simp add: upto_rec1)
  show ?case
    unfolding up
    using Cons.IH [OF s(4) kn', of "acc @ records" "log @ [page_url link k]"]
    by (simp add: page_served [where rg = rg, OF s(1-3)] up2 add.assoc del: upto.simps)
qed

text \<open>
  C6. In both pagination styles, when a page request fails with the invalid-resource
  error, the paginated fetch returns what the pages before it gave and raises nothing,
  and the failed request is the last request made. For \<^verbatim>\<open>get_all_results\<close>: after the
  pages \<open>pages\<close>, the result is their concatenation (record mode) or the sum of their
  lengths (count mode). For \<^verbatim>\<open>get_all_repos\<close>: when the first request fails the result is
  the empty list; when the first page and the pages \<open>2, 3, ...\<close> in \<open>pages\<close> were received
  and the next page, still within the page count of the link header, fails, the result
  is the concatenation of the pages received.
\<close>

theorem pagination_halts_on_invalid_resource:
  "(\<forall>pages nexts w' res w''.
      served_pages so rg link w pages = Some (nexts, w')
      \<and> rg (py_str so (last (link # nexts))) [] w' = (Some res, w'') \<and> \<not> ok res \<longrightarrow>
      get_all_results so (recording rg) link True (w, log) =
        Some (Inr (PList (concat pages)), (w'', log @ map (py_str so) (link # nexts)))
      \<and> get_all_results so (recording rg) link False (w, log) =
        Some (Inr (PInt (int (sum_list (map length pages)))), (w'', log @ map (py_str so) (link # nexts))))
   \<and> (\<forall>res w1.
      rg u [] w = (Some res, w1) \<and> \<not> ok res \<longrightarrow>
      get_all_repos so (recording rg) u (w, log) = Some (Inr [], (w1, log @ [u])))
   \<and> (\<forall>res w1 first h n pages w2 res' w3.
      rg u [] w = (Some res, w1) \<and> ok res \<and> body res = PList first
      \<and> header_link (headers res) = Some h \<and> get_total_pages h = Inr n
      \<and> served_numbered rg u 2 w1 pages = Some w2 \<and> 2 + int (length pages) \<le> n
      \<and> rg (page_url u (2 + int (length pages))) [] w2 = (Some res', w3) \<and> \<not> ok res' \<longrightarrow>
      get_all_repos so (recording rg) u (w, log) =
        Some (Inr (first @ concat pages),
              (w3, log @ u # map (page_url u) [2..2 + int (length pages)])))"
proof (intro conjI allI impI)
  fix pages nexts w' res w''
  assume "served_pages so rg link w pages = Some (nexts, w')
      \<and> rg (py_str so (last (link # nexts))) [] w' = (Some res, w'') \<and> \<not> ok res"
  then have a: "served_pages so rg link w pages = Some (nexts, w')"
    "rg (py_str so (last (link # nexts))) [] w' = (Some res, w'')" "\<not> ok res"
    by blast+
  let ?l = "last (link # nexts)" and ?b = "butlast (link # nexts)"
  have log: "(log @ map (py_str so) ?b) @ [py_str so ?l] = log @ map (py_str so) (link # nexts)"
    by (rule log_snoc) simp
  have "get_all_results_while so (recording rg) True link (PList []) (w, log) =
        get_all_results_while so (recording rg) True ?l (PList ([] @ concat pages)) (w', log @ map (py_str so) ?b)"
    by (rule while_served_records [OF a(1)])
  also have "\<dots> = Some (Inl ValueError, PList ([] @ concat pages), (w'', (log @ map (py_str so) ?b) @ [py_str so ?l]))"
    by (rule while_invalid_page [where rg = rg, OF a(2,3)])
  finally have r: "get_all_results_while so (recording rg) True link (PList []) (w, log) =
        Some (Inl ValueError, PList (concat pages), (w'', log @ map (py_str so) (link # nexts)))"
    unfolding log by simp
  have "get_all_results_while so (recording rg) False link (PInt 0) (w, log) =
        get_all_results_while so (recording rg) False ?l (PInt (0 + int (sum_list (map length pages))))
          (w', log @ map (py_str so) ?b)"
    by (rule while_served_count [OF a(1)])
  also have "\<dots> = Some (Inl ValueError, PInt (0 + int (sum_list (map length pages))),
                       (w'', (log @ map (py_str so) ?b) @ [py_str so ?l]))"
    by (rule while_invalid_page [where rg = rg, OF a(2,3)])
  finally have c: "get_all_results_while so (recording rg) False link (PInt 0) (w, log) =
        Some (Inl ValueError, PInt (int (sum_list (map length pages))),
              (w'', log @ map (py_str so) (link # nexts)))"
    unfolding log by simp
  show "get_all_results so (recording rg) link True (w, log) =
        Some (Inr (PList (concat pages)), (w'', log @ map (py_str so) (link # nexts)))"
    by (simp add: get_all_results_def r del: last.simps butlast.simps)
  show "get_all_results so (recording rg) link False (w, log) =
        Some (Inr (PInt (int (sum_list (map length pages)))), (w'', log @ map (py_str so) (link # nexts)))"
    by (simp add: get_all_results_def c del: last.simps butlast.simps)
next
  fix res w1
  assume "rg u [] w = (Some res, w1) \<and> \<not> ok res"
  then have a: "rg u [] w = (Some res, w1)" "\<not> ok res"
    by blast+
  have "github_make_api_call (recording rg) u [] (w, log) = (Inl ValueError, (w1, log @ [u]))"
    by (rule github_recording_call_invalid [where rg = rg, OF a])
  then show "get_all_repos so (recording rg) u (w, log) = Some (Inr [], (w1, log @ [u]))"
    by (simp add: get_all_repos_def get_all_repos_try_def prog_defs)
next
  fix res w1 first h n pages w2 res' w3
  assume "rg u [] w = (Some res, w1) \<and> ok res \<and> body res = PList first
      \<and> header_link (headers res) = Some h \<and> get_total_pages h = Inr n
      \<and> served_numbered rg u 2 w1 pages = Some w2 \<and> 2 + int (length pages) \<le> n
      \<and> rg (page_url u (2 + int (length pages))) [] w2 = (Some res', w3) \<and> \<not> ok res'"
  then have a: "rg u [] w = (Some res, w1)" "ok res" "body res = PList first"
      "header_link (headers res) = Some h" "get_total_pages h = Inr n"
      "served_numbered rg u 2 w1 pages = Some w2" "2 + int (length pages) \<le> n"
      "rg (page_url u (2 + int (length pages))) [] w2 = (Some res', w3)" "\<not> ok res'"
    by blast+
  let ?k = "2 + int (length pages)"
  have call: "github_make_api_call (recording rg) u [] (w, log) =
      (Inr (body res, headers res), (w1, log @ [u]))"
    by (rule github_recording_call_ok [where rg = rg, OF a(1,2)])
  have loop: "for_each (get_all_repos_page so (recording rg) u) [2..n] (first, (w1, log @ [u])) =
      for_each (get_all_repos_page so (recording rg) u) [?k..n]
        (first @ concat pages, (w2, (log @ [u]) @ map (page_url u) [2..?k - 1]))"
    using a(7) by (intro for_each_served [where rg = rg, OF a(6)]) simp
  have up: "[?k..n] = ?k # [?k + 1..n]"
    using a(7) by (simp add: upto_rec1)
  have stop: "get_all_repos_page so (recording rg) u ?k (first @ concat pages, (w2, log')) =
      Some (Inl ValueError, (first @ concat pages, (w3, log' @ [page_url u ?k])))" for log'
    by (rule page_invalid [where rg = rg, OF a(8,9)])
  have upk: "[2..?k] = [2..?k - 1] @ [?k]"
    by (simp add: upto_rec2)
  have "try_except (get_all_repos_try so (recording rg) u) ValueError (ret ()) ([], (w, log)) =
      Some (Inr (), (first @ concat pages, (w3, log @ u # map (page_url u) [2..?k])))"
    unfolding upk
    using a(3,4,5)
    by (simp add: get_all_repos_try_def prog_defs call extend_results_def py_range_def loop up stop
        del: upto.simps)
  then show "get_all_repos so (recording rg) u (w, log) =
        Some (Inr (first @ concat pages), (w3, log @ u # map (page_url u) [2..?k]))"
    by (simp add: get_all_repos_def)
qed

lemma total_pages_LINK_HEADER: "get_total_pages LINK_HEADER = Inr 2"
  by code_simp

theorem pagination_halts_on_invalid_resource_witness:
  "get_all_results id (recording scripted) (PStr ''url'') True
       ([ok_json (one_entry_page_next ''url2''), not_ok], []) =
     Some (Inr (PList [PDict [(''entry'', PStr ''data'')]]), ([], [''url'', ''url2'']))
   \<and> get_all_results id (recording scripted) (PStr ''url'') False
       ([ok_json (one_entry_page_next ''url2''), not_ok], []) =
     Some (Inr (PInt 1), ([], [''url'', ''url2'']))
   \<and> get_all_repos id (recording scripted) ''url'' ([not_ok], []) = Some (Inr [], ([], [''url'']))
   \<and> get_all_repos id (recording scripted) ''url''
       ([ok_json_linked (PList [PDict [(''repo'', PStr ''data'')]]), not_ok], []) =
     Some (Inr [PDict [(''repo'', PStr ''data'')]], ([], [''url'', ''url&page=2'']))"
proof -
  note t = pagination_halts_on_invalid_resource [where rg = scripted and log = "[]"]
  have 1: "get_all_results id (recording scripted) (PStr ''url'') True
       ([ok_json (one_entry_page_next ''url2''), not_ok], []) =
     Some (Inr (PList [PDict [(''entry'', PStr ''data'')]]), ([], [''url'', ''url2'']))
   \<and> get_all_results id (recording scripted) (PStr ''url'') False
       ([ok_json (one_entry_page_next ''url2''), not_ok], []) =
     Some (Inr (PInt 1), ([], [''url'', ''url2'']))"
    using t [where link = "PStr ''url''" and w = "[ok_json (one_entry_page_next ''url2''), not_ok]",
        THEN conjunct1, rule_format, where pages = "[[PDict [(''entry'', PStr ''data'')]]]"
        and nexts = "[PStr ''url2'']" and w' = "[not_ok]" and w'' = "[]"
        and res = "\<lparr>ok = False, body = PNone, headers = []\<rparr>"]
    by (simp add: scripted_def ok_json_def not_ok_def one_entry_page_next_def dict_getitem_def)
  have 2: "get_all_repos id (recording scripted) ''url'' ([not_ok], []) = Some (Inr [], ([], [''url'']))"
    using t [where u = "''url''" and w = "[not_ok]",
        THEN conjunct2, THEN conjunct1, rule_format, where ?w1.0 = "[]"
        and res = "\<lparr>ok = False, body = PNone, headers = []\<rparr>"]
    by (simp add: scripted_def not_ok_def)
  have 3: "get_all_repos id (recording scripted) ''url''
       ([ok_json_linked (PList [PDict [(''repo'', PStr ''data'')]]), not_ok], []) =
     Some (Inr [PDict [(''repo'', PStr ''data'')]], ([], [''url'', ''url&page=2'']))"
    using t [where u = "''url''"
        and w = "[ok_json_linked (PList [PDict [(''repo'', PStr ''data'')]]), not_ok]",
        THEN conjunct2, THEN conjunct2, rule_format, where ?w1.0 = "[not_ok]"
        and res = "\<lparr>ok = True, body = PList [PDict [(''repo'', PStr ''data'')]],
                     headers = [(''link'', LINK_HEADER)]\<rparr>"
        and first = "[PDict [(''repo'', PStr ''data'')]]" and h = LINK_HEADER and n = 2
        and pages = "[]" and ?w2.0 = "[not_ok]" and res' = "\<lparr>ok = False, body = PNone, headers = []\<rparr>"
        and ?w3.0 = "[]"]
      total_pages_LINK_HEADER
    by (simp add: scripted_def not_ok_def ok_json_linked_def header_link_def page_url_def
        show_int_def show_nat.simps digit_char_def LINK_HEADER_def)
  from 1 2 3 show ?thesis by blast
qed
subsection \<open>The page number of the link header\<close>

text \<open>\<^verbatim>\<open>int(str(n)) == n\<close>: the decimal digits of a number read back as the number.\<close>

lemma digit_char_in: "d < 10 \<Longrightarrow> digit_char d \<in> set ''0123456789''"
  unfolding digit_char_def by (rule nth_mem) simp

lemma show_nat_digits: "set (show_nat n) \<subseteq> set ''0123456789''"
proof (induction n rule: show_nat.induct)
  case (1 n)
  show ?case
  proof (cases "n < 10")
    case True
    then show ?thesis
      using digit_char_in [of n] by (subst show_nat.simps) simp
  next
    case False
    have "digit_char (n mod 10) \<in> set ''0123456789''"
      by (rule digit_char_in) simp
    with False 1 show ?thesis
      by (subst show_nat.simps) simp
  qed
qed

lemma show_nat_nonempty: "show_nat n \<noteq> []"
  by (subst show_nat.simps) simp

lemma digit_of_digit_char: "d < 10 \<Longrightarrow> digit_of (digit_char d) = Some d"
proof -
  assume "d < 10"
  then have "d \<in> {0, 1, 2, 3, 4, 5, 6, 7, 8, 9}" by auto
  then show ?thesis
    by (auto simp: digit_of_def digit_char_def)
qed

lemma digits_value_snoc:
  "digits_value acc (xs @ [c]) =
     (case digits_value acc xs of None \<Rightarrow> None
      | Some v \<Rightarrow> (case digit_of c of None \<Rightarrow> None | Some d \<Rightarrow> Some (10 * v + d)))"
  by (induction xs arbitrary: acc) (auto split: option.splits)

lemma digits_value_show_nat: "digits_value 0 (show_nat n) = Some n"
proof (induction n rule: show_nat.induct)
  case (1 n)
  show ?case
  proof (cases "n < 10")
    case True
    then show ?thesis
      by (subst show_nat.simps) (simp add: digit_of_digit_char)
  next
    case False
    have "digit_of (digit_char (n mod 10)) = Some (n mod 10)"
      by (rule digit_of_digit_char) simp
    with False 1 show ?thesis
      by (subst show_nat.simps) (simp add: digits_value_snoc)
  qed
qed

lemma digits_only_facts:
  assumes "set ds \<subseteq> set ''0123456789''"
  shows "\<forall>c\<in>set ds. \<not> is_int_space c" "CHR ''_'' \<notin> set ds" "CHR ''-'' \<notin> set ds" "CHR ''+'' \<notin> set ds"
    "CHR 0x0A \<notin> set ds" "CHR ''p'' \<notin> set ds" "CHR ''>'' \<notin> set ds"
  using assms by (auto simp: is_int_space_def)

lemma dropWhile_none: "\<forall>c\<in>set xs. \<not> P c \<Longrightarrow> dropWhile P xs = xs"
  by (cases xs) auto

lemma int_strip_id:
  assumes "\<forall>c\<in>set s. \<not> is_int_space c"
  shows "int_strip s = s"
proof -
  have "dropWhile is_int_space s = s"
    using assms by (rule dropWhile_none)
  moreover have "dropWhile is_int_space (rev s) = rev s"
    by (rule dropWhile_none) (use assms in simp)
  ultimately show ?thesis
    by (simp add: int_strip_def)
qed

lemma py_int_show_nat:
  assumes "length (show_nat n) \<le> max_str_digits"
  shows "py_int (show_nat n) = Inr (int n)"
proof -
  let ?ds = "show_nat n"
  note d = digits_only_facts [OF show_nat_digits [of n]]
  have ne: "?ds \<noteq> []" by (rule show_nat_nonempty)
  have strip: "int_strip ?ds = ?ds"
    by (rule int_strip_id) (rule d(1))
  have hd: "hd ?ds \<in> set ?ds" and last: "last ?ds \<in> set ?ds"
    using ne by simp_all
  have hd1: "hd ?ds \<noteq> CHR ''-''" "hd ?ds \<noteq> CHR ''+''" "hd ?ds \<noteq> CHR ''_''"
    using hd d(2,3,4) by metis+
  have last1: "last ?ds \<noteq> CHR ''_''"
    using last d(2) by metis
  have "\<not> sublist ''__'' ?ds"
  proof
    assume "sublist ''__'' ?ds"
    then have "set ''__'' \<subseteq> set ?ds" by (rule set_mono_sublist)
    with d(2) show False by simp
  qed
  then have wg: "well_grouped ?ds"
    using ne hd1 last1 by (simp add: well_grouped_def)
  have filt: "filter (\<lambda>c. c \<noteq> CHR ''_'') ?ds = ?ds"
    using d(2) by (auto simp: filter_id_conv)
  show ?thesis
    using hd1 assms by (simp add: py_int_def strip wg filt digits_value_show_nat Let_def)
qed


text \<open>
  The regular expression on a header that ends with an entry whose URL ends with
  \<^verbatim>\<open>page=\<close> and digits: there is one match, and its group ends with these digits.
\<close>

lemma greedy_none:
  "\<not> sublist ''>;'' z \<Longrightarrow> greedy_until_gt z = None"
proof (induction z)
  case Nil
  then show ?case by simp
next
  case (Cons c cs)
  from Cons.prems have "\<not> sublist ''>;'' cs" and "\<not> prefix ''>;'' (c # cs)"
    by (auto simp: sublist_Cons_right)
  with Cons.IH show ?case by auto
qed

lemma greedy_to_last:
  assumes "CHR 0x0A \<notin> set y" "\<not> sublist ''>;'' post"
  shows "greedy_until_gt (y @ ''>;'' @ post) = Some (y, post)"
  using assms(1)
proof (induction y)
  case Nil
  have "\<not> sublist ''>;'' (CHR '';'' # post)"
    using assms(2) by (simp add: sublist_Cons_right)
  then have "greedy_until_gt (CHR '';'' # post) = None"
    by (rule greedy_none)
  then show ?case by simp
next
  case (Cons c y)
  then show ?case by auto
qed

lemma findall_page_match:
  assumes "prefix ''page='' s" "greedy_until_gt (drop 5 s) = Some (cap, rest)"
  shows "findall_page s = cap # findall_page rest"
proof -
  from assms(1) have "s \<noteq> []" by auto
  with assms show ?thesis
    by (subst findall_page.simps) simp
qed

lemma findall_page_skip:
  assumes "\<not> prefix ''page='' (c # cs)"
  shows "findall_page (c # cs) = findall_page cs"
  using assms by (subst findall_page.simps) auto

lemma findall_none:
  "\<not> sublist ''>;'' z \<Longrightarrow> findall_page z = []"
proof (induction z)
  case Nil
  then show ?case by (subst findall_page.simps) simp
next
  case (Cons c cs)
  from Cons.prems have cs: "\<not> sublist ''>;'' cs"
    by (simp add: sublist_Cons_right)
  have "\<not> sublist ''>;'' (drop 5 (c # cs))"
    using Cons.prems sublist_drop sublist_order.order_trans by blast
  then have "greedy_until_gt (drop 5 (c # cs)) = None"
    by (rule greedy_none)
  with Cons.IH [OF cs] show ?case
    by (subst findall_page.simps) simp
qed

lemma page_prefix_no_overlap:
  assumes "prefix ''page='' (c # m @ ''page='' @ t)"
  shows "\<exists>m'. c # m = ''page='' @ m'"
proof -
  have False if "length m < 4"
  proof -
    from that consider "m = []" | a where "m = [a]" | a b where "m = [a, b]"
      | a b d where "m = [a, b, d]"
      by (cases m; cases "tl m"; cases "tl (tl m)"; cases "tl (tl (tl m))") auto
    then show False
      using assms by cases auto
  qed
  then have "4 \<le> length m" by fastforce
  then obtain a b d e m' where "m = a # b # d # e # m'"
    by (cases m; cases "tl m"; cases "tl (tl m)"; cases "tl (tl (tl m))") auto
  with assms show ?thesis by auto
qed

lemma findall_single:
  assumes "CHR 0x0A \<notin> set (pre @ ''page='' @ ds)" "\<not> sublist ''>;'' post"
  shows "\<exists>cap. findall_page (pre @ ''page='' @ ds @ ''>;'' @ post) = [cap]
           \<and> (\<exists>m. cap = m @ ''page='' @ ds \<or> cap = ds)"
  using assms(1)
proof (induction pre)
  case Nil
  have "greedy_until_gt (ds @ ''>;'' @ post) = Some (ds, post)"
    using Nil assms(2) by (intro greedy_to_last) simp_all
  then have "greedy_until_gt (drop 5 (''page='' @ ds @ ''>;'' @ post)) = Some (ds, post)"
    by simp
  then have "findall_page (''page='' @ ds @ ''>;'' @ post) = ds # findall_page post"
    by (intro findall_page_match) simp_all
  then show ?case
    by (simp add: findall_none [OF assms(2)])
next
  case (Cons c pre)
  let ?t = "''page='' @ ds @ ''>;'' @ post"
  have s: "(c # pre) @ ?t = c # (pre @ ?t)"
    by (simp only: append_Cons)
  show ?case
  proof (cases "prefix ''page='' (c # (pre @ ?t))")
    case True
    then obtain m' where m': "c # pre = ''page='' @ m'"
      using page_prefix_no_overlap [of c pre "ds @ ''>;'' @ post"] by auto
    have nl: "CHR 0x0A \<notin> set (m' @ ''page='' @ ds)"
    proof -
      have "set (m' @ ''page='' @ ds) \<subseteq> set ((c # pre) @ ''page='' @ ds)"
        unfolding m' by auto
      with Cons.prems show ?thesis by auto
    qed
    have d: "drop 5 (c # (pre @ ?t)) = (m' @ ''page='' @ ds) @ ''>;'' @ post"
      unfolding s [symmetric] m' by simp
    have g: "greedy_until_gt (drop 5 (c # (pre @ ?t))) = Some (m' @ ''page='' @ ds, post)"
      unfolding d using nl assms(2) by (rule greedy_to_last)
    have "findall_page (c # (pre @ ?t)) = (m' @ ''page='' @ ds) # findall_page post"
      using True g by (rule findall_page_match)
    then have "findall_page ((c # pre) @ ?t) = [m' @ ''page='' @ ds]"
      unfolding s by (simp only: findall_none [OF assms(2)])
    then show ?thesis by blast
  next
    case False
    have "CHR 0x0A \<notin> set (pre @ ''page='' @ ds)"
      using Cons.prems by simp
    from Cons.IH [OF this] obtain cap where
      c: "findall_page (pre @ ?t) = [cap]" "\<exists>m. cap = m @ ''page='' @ ds \<or> cap = ds"
      by blast
    have "findall_page (c # (pre @ ?t)) = findall_page (pre @ ?t)"
      using False by (rule findall_page_skip)
    then have "findall_page ((c # pre) @ ?t) = [cap]"
      unfolding s using c(1) by simp
    with c(2) show ?thesis by blast
  qed
qed


lemma split_from_nonempty: "split_from sep cur s \<noteq> []"
proof (induction sep cur s rule: split_from.induct)
  case (1 sep cur s)
  then show ?case
    by (subst split_from.simps) auto
qed

lemma split_from_match:
  "split_from ''page='' cur (''page='' @ t) = cur # split_from ''page='' [] t"
  by (subst split_from.simps) simp

lemma split_from_skip:
  "\<not> prefix ''page='' (c # cs) \<Longrightarrow>
   split_from ''page='' cur (c # cs) = split_from ''page='' (cur @ [c]) cs"
  by (subst split_from.simps) auto

lemma split_no_sep:
  "CHR ''p'' \<notin> set ds \<Longrightarrow> split_from ''page='' cur ds = [cur @ ds]"
proof (induction ds arbitrary: cur)
  case Nil
  then show ?case by (subst split_from.simps) simp
next
  case (Cons c cs)
  then have "\<not> prefix ''page='' (c # cs)" by auto
  then have "split_from ''page='' cur (c # cs) = split_from ''page='' (cur @ [c]) cs"
    by (rule split_from_skip)
  with Cons show ?case by simp
qed

lemma split_last:
  assumes "CHR ''p'' \<notin> set ds"
  shows "last (split_from ''page='' cur (m @ ''page='' @ ds)) = ds"
proof (induction m arbitrary: cur rule: length_induct)
  case (1 m)
  show ?case
  proof (cases m)
    case Nil
    have "split_from ''page='' cur (''page='' @ ds) = cur # split_from ''page='' [] ds"
      by (rule split_from_match)
    then show ?thesis
      unfolding Nil by (simp add: split_no_sep [OF assms])
  next
    case (Cons c m')
    let ?t = "''page='' @ ds"
    have s: "m @ ?t = c # (m' @ ?t)"
      unfolding Cons by (simp only: append_Cons)
    show ?thesis
    proof (cases "prefix ''page='' (c # (m' @ ?t))")
      case True
      then obtain m'' where m'': "c # m' = ''page='' @ m''"
        using page_prefix_no_overlap [of c m' ds] by auto
      then have len: "length m'' < length m"
        unfolding Cons by (metis length_append length_Cons less_add_same_cancel2 zero_less_Suc add.commute)
      have "m @ ?t = ''page='' @ (m'' @ ?t)"
        unfolding Cons m'' by simp
      then have "split_from ''page='' cur (m @ ?t) = cur # split_from ''page='' [] (m'' @ ?t)"
        by (simp only: split_from_match)
      moreover have "last (split_from ''page='' [] (m'' @ ?t)) = ds"
        using 1 len by blast
      ultimately show ?thesis
        by (simp add: split_from_nonempty)
    next
      case False
      then have "split_from ''page='' cur (c # (m' @ ?t)) = split_from ''page='' (cur @ [c]) (m' @ ?t)"
        by (rule split_from_skip)
      moreover have "last (split_from ''page='' (cur @ [c]) (m' @ ?t)) = ds"
        using 1 Cons by simp
      ultimately show ?thesis
        unfolding s by simp
    qed
  qed
qed

lemma get_total_pages_last_entry:
  assumes "CHR 0x0A \<notin> set pre" "\<not> sublist ''>;'' post"
    and "length (show_nat n) \<le> max_str_digits"
  shows "get_total_pages (pre @ ''page='' @ show_nat n @ ''>;'' @ post) = Inr (int n)"
proof -
  let ?ds = "show_nat n"
  note d = digits_only_facts [OF show_nat_digits [of n]]
  have "CHR 0x0A \<notin> set (pre @ ''page='' @ ?ds)"
    using assms(1) d(5) by simp
  from findall_single [OF this assms(2)] obtain cap where
    cap: "findall_page (pre @ ''page='' @ ?ds @ ''>;'' @ post) = [cap]"
      "\<exists>m. cap = m @ ''page='' @ ?ds \<or> cap = ?ds"
    by blast
  have "last (split_from ''page='' [] cap) = ?ds"
  proof -
    from cap(2) obtain m where "cap = m @ ''page='' @ ?ds \<or> cap = ?ds" by blast
    then show ?thesis
    proof
      assume "cap = m @ ''page='' @ ?ds"
      then show ?thesis by (simp only: split_last [OF d(6)])
    next
      assume "cap = ?ds"
      then show ?thesis by (simp add: split_no_sep [OF d(6)])
    qed
  qed
  then have l: "py_last (py_split ''page='' cap) = Inr ?ds"
    by (simp add: py_last_def py_split_def split_from_nonempty)
  have f: "py_last (findall_page (pre @ ''page='' @ ?ds @ ''>;'' @ post)) = Inr cap"
    unfolding cap(1) by (simp add: py_last_def)
  show ?thesis
    unfolding get_total_pages_def f bindE_Inr l by (rule py_int_show_nat [OF assms(3)])
qed


subsection \<open>The follower count of the Github collector\<close>

lemma github_recording_call:
  "\<exists>r w1. github_make_api_call (recording rg) u hdrs (w, log) = (r, (w1, log @ [u]))"
  by (simp add: github_make_api_call_def recording_def split: prod.splits option.splits)

lemma followers_one_request:
  "\<exists>r self' w'. github_get_followers_count (recording rg) (self, (w, log)) =
     Some (r, (self', (w', log @ [github_followers_url self])))"
proof -
  let ?u = "github_followers_url self"
  obtain r w1 where c: "github_make_api_call (recording rg) ?u [] (w, log) = (r, (w1, log @ [?u]))"
    using github_recording_call [of rg ?u "[]" w log] by blast
  show ?thesis
    unfolding github_get_followers_count_def
    by (cases r) (auto simp: prog_defs c split: option.splits sum.splits)
qed

lemma total_pages_LAST_FIRST: "get_total_pages LAST_FIRST_HEADER = Inr 2"
  by code_simp

lemma total_pages_UNPAGED: "get_total_pages UNPAGED_HEADER = Inl IndexError"
  by code_simp

lemma header_nonempty: "LAST_FIRST_HEADER \<noteq> []" "UNPAGED_HEADER \<noteq> []"
  by (simp_all add: LAST_FIRST_HEADER_def UNPAGED_HEADER_def)

text \<open>
  Against C4 as it is worded: the number taken from the link header is that of the final
  \<^verbatim>\<open>page=\<close> entry, whatever its \<^verbatim>\<open>rel\<close>. With the \<^verbatim>\<open>rel="last"\<close> entry for page 5 placed
  before the \<^verbatim>\<open>rel="next"\<close> entry for page 2, the follower count grows by 2, not by 5. And
  with a link header that encodes no page number, the count does not fall back to the
  number of records: \<^verbatim>\<open>[-1]\<close> on the empty list of matches raises \<^verbatim>\<open>IndexError\<close>, which
  \<^verbatim>\<open>except ValueError\<close> lets through.
\<close>

theorem last_page_is_final_entry:
  "github_get_followers_count scripted
     (Github ''test'', [ok_with_link (PList [PDict []]) LAST_FIRST_HEADER]) =
     Some (Inr (), (Github ''test''\<lparr>followers := 2\<rparr>, []))
   \<and> github_get_followers_count scripted
     (Github ''test'', [ok_with_link (PList [PDict []]) UNPAGED_HEADER]) =
     Some (Inl IndexError, (Github ''test'', []))"
  using total_pages_LAST_FIRST total_pages_UNPAGED header_nonempty
  unfolding get_total_pages_def
  by (simp add: github_get_followers_count_def github_make_api_call_def header_link_def
      prog_defs scripted_def ok_with_link_def Github_def)

lemma followers_unpaged:
  assumes "rg (github_followers_url self) [] w = (Some res, w')" "ok res"
    "header_link (headers res) = Some h" "\<not> sublist ''>;'' h"
  shows "github_get_followers_count (recording rg) (self, (w, log)) =
     Some (Inl IndexError, (self, (w', log @ [github_followers_url self])))"
proof -
  let ?u = "github_followers_url self"
  have call: "github_make_api_call (recording rg) ?u [] (w, log) =
      (Inr (body res, headers res), (w', log @ [?u]))"
    by (rule github_recording_call_ok [where rg = rg, OF assms(1,2)])
  have ne: "headers res \<noteq> []"
    using assms(3) by (auto simp: header_link_def)
  have f: "findall_page h = []"
    by (rule findall_none [OF assms(4)])
  show ?thesis
    unfolding github_get_followers_count_def
    by (simp add: prog_defs call ne assms(3) f py_last_def)
qed

text \<open>
  C4, amended. \<^verbatim>\<open>get_followers_count\<close> of the Github collector issues exactly one request,
  for the one-per-page follower URL, whatever the response. When the response is ok and
  its link header ends with an entry whose URL ends with \<^verbatim>\<open>page=n\<close> (where Github puts the
  \<^verbatim>\<open>rel="last"\<close> entry of a first page), \<open>n\<close> written with no more digits than \<^verbatim>\<open>int()\<close>
  reads, the follower count grows by \<open>n\<close>; when the response
  is ok and has no link header, it grows by the number of records in the body; when the
  response is ok and has a link header without any \<^verbatim>\<open>>;\<close>, the call raises \<^verbatim>\<open>IndexError\<close>
  and the count stays as it was.
\<close>

theorem github_followers_count:
  "(\<forall>res w' pre n post.
      rg (github_followers_url self) [] w = (Some res, w')
      \<and> ok res
      \<and> map_of (headers res) ''link'' = Some (pre @ ''page='' @ show_nat n @ ''>;'' @ post)
      \<and> CHR 0x0A \<notin> set pre \<and> \<not> sublist ''>;'' post
      \<and> length (show_nat n) \<le> max_str_digits \<longrightarrow>
      github_get_followers_count (recording rg) (self, (w, log)) =
        Some (Inr (), (self\<lparr>followers := followers self + int n\<rparr>,
              (w', log @ [github_followers_url self]))))
   \<and> (\<forall>res w' records.
      rg (github_followers_url self) [] w = (Some res, w')
      \<and> ok res \<and> header_link (headers res) = None \<and> body res = PList records \<longrightarrow>
      github_get_followers_count (recording rg) (self, (w, log)) =
        Some (Inr (), (self\<lparr>followers := followers self + int (length records)\<rparr>,
              (w', log @ [github_followers_url self]))))
   \<and> (\<forall>res w' h.
      rg (github_followers_url self) [] w = (Some res, w')
      \<and> ok res \<and> header_link (headers res) = Some h \<and> \<not> sublist ''>;'' h \<longrightarrow>
      github_get_followers_count (recording rg) (self, (w, log)) =
        Some (Inl IndexError, (self, (w', log @ [github_followers_url self]))))
   \<and> (\<exists>r self' w'.
      github_get_followers_count (recording rg) (self, (w, log)) =
        Some (r, (self', (w', log @ [github_followers_url self]))))"
proof (intro conjI allI impI)
  let ?u = "github_followers_url self"
  fix res w' pre n post
  assume "rg ?u [] w = (Some res, w') \<and> ok res
      \<and> map_of (headers res) ''link'' = Some (pre @ ''page='' @ show_nat n @ ''>;'' @ post)
      \<and> CHR 0x0A \<notin> set pre \<and> \<not> sublist ''>;'' post
      \<and> length (show_nat n) \<le> max_str_digits"
  then have a: "rg ?u [] w = (Some res, w')" "ok res"
      "map_of (headers res) ''link'' = Some (pre @ ''page='' @ show_nat n @ ''>;'' @ post)"
      "CHR 0x0A \<notin> set pre" "\<not> sublist ''>;'' post" "length (show_nat n) \<le> max_str_digits"
    by blast+
  define h where "h = pre @ ''page='' @ show_nat n @ ''>;'' @ post"
  have call: "github_make_api_call (recording rg) ?u [] (w, log) =
      (Inr (body res, headers res), (w', log @ [?u]))"
    by (rule github_recording_call_ok [where rg = rg, OF a(1,2)])
  have ne: "headers res \<noteq> []"
    using a(3) by auto
  have "h \<noteq> []"
    unfolding h_def by simp
  moreover have "map_of (headers res) ''link'' = Some h"
    unfolding h_def by (rule a(3))
  ultimately have hl: "header_link (headers res) = Some h"
    by (simp add: header_link_def)
  have tp: "bindE (py_last (findall_page h)) (\<lambda>group.
              bindE (py_last (py_split ''page='' group)) py_int) = Inr (int n)"
    unfolding h_def
    using get_total_pages_last_entry [OF a(4,5,6)] by (simp only: get_total_pages_def)
  show "github_get_followers_count (recording rg) (self, (w, log)) =
        Some (Inr (), (self\<lparr>followers := followers self + int n\<rparr>, (w', log @ [?u])))"
    unfolding github_get_followers_count_def
    by (simp add: prog_defs call ne hl tp del: append_assoc)
next
  let ?u = "github_followers_url self"
  fix res w' records
  assume "rg ?u [] w = (Some res, w') \<and> ok res \<and> header_link (headers res) = None
      \<and> body res = PList records"
  then have a: "rg ?u [] w = (Some res, w')" "ok res" "header_link (headers res) = None"
      "body res = PList records"
    by blast+
  have call: "github_make_api_call (recording rg) ?u [] (w, log) =
      (Inr (body res, headers res), (w', log @ [?u]))"
    by (rule github_recording_call_ok [where rg = rg, OF a(1,2)])
  show "github_get_followers_count (recording rg) (self, (w, log)) =
        Some (Inr (), (self\<lparr>followers := followers self + int (length records)\<rparr>, (w', log @ [?u])))"
    unfolding github_get_followers_count_def
    by (simp add: prog_defs call a(3,4))
next
  fix res w' h
  assume "rg (github_followers_url self) [] w = (Some res, w')
      \<and> ok res \<and> header_link (headers res) = Some h \<and> \<not> sublist ''>;'' h"
  then have a: "rg (github_followers_url self) [] w = (Some res, w')" "ok res"
      "header_link (headers res) = Some h" "\<not> sublist ''>;'' h"
    by blast+
  show "github_get_followers_count (recording rg) (self, (w, log)) =
        Some (Inl IndexError, (self, (w', log @ [github_followers_url self])))"
    by (rule followers_unpaged [where rg = rg, OF a])
next
  show "\<exists>r self' w'.
      github_get_followers_count (recording rg) (self, (w, log)) =
        Some (r, (self', (w', log @ [github_followers_url self])))"
    by (rule followers_one_request)
qed


lemma no_gt_in_tail: "\<not> sublist ''>;'' '' rel=\"last\"''"
  by code_simp

theorem github_followers_count_witness:
  "github_get_followers_count (recording scripted) (Github ''test'', ([ok_json_linked PNone], [])) =
     Some (Inr (), (Github ''test''\<lparr>followers := 2\<rparr>,
           ([], [''https://api.github.com/users/test/followers?per_page=1''])))
   \<and> github_get_followers_count (recording scripted)
       (Github ''test'', ([ok_json (PList [PDict []])], [])) =
     Some (Inr (), (Github ''test''\<lparr>followers := 1\<rparr>,
           ([], [''https://api.github.com/users/test/followers?per_page=1''])))"
proof -
  note t = github_followers_count [where rg = scripted and self = "Github ''test''" and log = "[]"]
  have 1: "github_get_followers_count (recording scripted) (Github ''test'', ([ok_json_linked PNone], [])) =
     Some (Inr (), (Github ''test''\<lparr>followers := 2\<rparr>,
           ([], [''https://api.github.com/users/test/followers?per_page=1''])))"
    using t [where w = "[ok_json_linked PNone]", THEN conjunct1, rule_format,
        where res = "\<lparr>ok = True, body = PNone, headers = [(''link'', LINK_HEADER)]\<rparr>"
        and w' = "[]" and n = 2 and post = "'' rel=\"last\"''"
        and pre = "''<https://api.github.com/organizations/216758/repos?per_page=1&page=1>; rel=\"next\", <https://api.github.com/organizations/216758/repos?per_page=1&''"]
      no_gt_in_tail
    by (simp add: scripted_def ok_json_linked_def LINK_HEADER_def show_nat.simps digit_char_def
        max_str_digits_def github_followers_url_def Github_def)
  have 2: "github_get_followers_count (recording scripted)
       (Github ''test'', ([ok_json (PList [PDict []])], [])) =
     Some (Inr (), (Github ''test''\<lparr>followers := 1\<rparr>,
           ([], [''https://api.github.com/users/test/followers?per_page=1''])))"
    using t [where w = "[ok_json (PList [PDict []])]", THEN conjunct2, THEN conjunct1, rule_format,
        where res = "\<lparr>ok = True, body = PList [PDict []], headers = []\<rparr>"
        and w' = "[]" and records = "[PDict []]"]
    by (simp add: scripted_def ok_json_def header_link_def github_followers_url_def Github_def)
  from 1 2 show ?thesis by blast
qed

subsection \<open>Missing fields\<close>

text \<open>
  The claim that no collector operation raises on a missing field fails: with the one
  repository of the page lacking its \<^verbatim>\<open>language\<close> field, \<^verbatim>\<open>make_response\<close> of the Bitbucket
  collector raises \<^verbatim>\<open>KeyError\<close>.
\<close>

theorem missing_language_raises:
  "map_option fst (bitbucket_make_response id scripted
       (Bitbucket ''test'' ''2.0'', [ok_json no_language_page])) = Some (Inl KeyError)"
  by (simp add: bitbucket_defs value_defs prog_defs while_unfold Bitbucket_def scripted_def
      ok_json_def no_language_page_def bitbucket_repos_url_def cong: sum.case_cong_weak)

lemma bitbucket_call_ok:
  "rg (py_str so link) [] w = (Some res, w') \<Longrightarrow> ok res \<Longrightarrow>
   bitbucket_make_api_call so rg link w = (Inr (body res), w')"
  by (simp add: bitbucket_make_api_call_def)

lemma get_result_missing_values:
  "map_of d ''values'' = None \<Longrightarrow>
   get_result (PDict d) data = Inr (if data then PList [] else PInt 0)"
  by (simp add: get_result_def dict_getitem_def)

lemma while_missing_values:
  assumes "rg (py_str so link) [] w = (Some res, w')" "ok res" "body res = PDict d"
    "map_of d ''values'' = None"
    "acc = (if data then PList records else PInt n)"
  shows "get_all_results_while so rg data link acc w =
     (if truthy (case map_of d ''next'' of None \<Rightarrow> PNone | Some v \<Rightarrow> v)
      then get_all_results_while so rg data (case map_of d ''next'' of None \<Rightarrow> PNone | Some v \<Rightarrow> v) acc w'
      else Some (Inr (), acc, w'))"
  using assms(3,4,5)
  by (simp add: while_unfold [OF bitbucket_call_ok [where rg = rg, OF assms(1,2)]]
      get_result_missing_values split: option.splits)

lemma process_repos_missing_language:
  assumes "rg (py_str so (PStr (bitbucket_repos_url self))) [] w = (Some res, w')" "ok res"
    "py_getitem (body res) ''values'' = Inr (PList (PDict repo # others))"
    "py_get (body res) ''next'' = Inr nxt" "\<not> truthy nxt"
    "map_of repo ''language'' = None"
  shows "bitbucket_process_repos so rg (self, w) = Some (Inl KeyError, (self, w'))"
proof -
  have "get_all_results_while so rg True (PStr (bitbucket_repos_url self)) (PList []) w =
      Some (Inr (), PList (PDict repo # others), w')"
    using assms(3,4,5)
    by (simp add: while_unfold [OF bitbucket_call_ok [where rg = rg, OF assms(1,2)]] get_result_values)
  then have "get_all_results so rg (PStr (bitbucket_repos_url self)) True w =
      Some (Inr (PList (PDict repo # others)), w')"
    by (simp add: get_all_results_def)
  then show ?thesis
    using assms(6)
    by (simp add: bitbucket_process_repos_def bitbucket_process_repo_def prog_defs dict_getitem_def)
qed

text \<open>
  C1, as the code has it. A page whose body is a dict without a \<^verbatim>\<open>values\<close> field counts as
  an empty page: \<^verbatim>\<open>get_result\<close> gives the empty list in record mode and zero in count mode,
  and the pagination loop of \<^verbatim>\<open>get_all_results\<close> goes on to the next page, or ends, with
  what it had accumulated. A repository record without a \<^verbatim>\<open>language\<close> field is not
  defaulted: \<^verbatim>\<open>process_repos\<close> raises \<^verbatim>\<open>KeyError\<close> and \<^verbatim>\<open>make_response\<close> passes it on.
\<close>

theorem missing_fields:
  "(\<forall>d data. map_of d ''values'' = None \<longrightarrow>
      get_result (PDict d) data = Inr (if data then PList [] else PInt 0))
   \<and> (\<forall>res w' d data acc records n.
      rg (py_str so link) [] w = (Some res, w') \<and> ok res \<and> body res = PDict d
      \<and> map_of d ''values'' = None \<and> acc = (if data then PList records else PInt n) \<longrightarrow>
      get_all_results_while so rg data link acc w =
        (if truthy (case map_of d ''next'' of None \<Rightarrow> PNone | Some v \<Rightarrow> v)
         then get_all_results_while so rg data
                (case map_of d ''next'' of None \<Rightarrow> PNone | Some v \<Rightarrow> v) acc w'
         else Some (Inr (), acc, w')))
   \<and> (\<forall>res w' repo others nxt.
      rg (bitbucket_repos_url self) [] w = (Some res, w') \<and> ok res
      \<and> py_getitem (body res) ''values'' = Inr (PList (PDict repo # others))
      \<and> py_get (body res) ''next'' = Inr nxt \<and> \<not> truthy nxt
      \<and> map_of repo ''language'' = None \<longrightarrow>
      bitbucket_process_repos so rg (self, w) = Some (Inl KeyError, (self, w'))
      \<and> map_option fst (bitbucket_make_response so rg (self, w)) = Some (Inl KeyError))"
proof (intro conjI allI impI)
  fix d :: pydict and data
  assume "map_of d ''values'' = None"
  then show "get_result (PDict d) data = Inr (if data then PList [] else PInt 0)"
    by (rule get_result_missing_values)
next
  fix res w' and d :: pydict and data acc records n
  assume "rg (py_str so link) [] w = (Some res, w') \<and> ok res \<and> body res = PDict d
      \<and> map_of d ''values'' = None \<and> acc = (if data then PList records else PInt n)"
  then have a: "rg (py_str so link) [] w = (Some res, w')" "ok res" "body res = PDict d"
      "map_of d ''values'' = None" "acc = (if data then PList records else PInt n)"
    by blast+
  show "get_all_results_while so rg data link acc w =
        (if truthy (case map_of d ''next'' of None \<Rightarrow> PNone | Some v \<Rightarrow> v)
         then get_all_results_while so rg data
                (case map_of d ''next'' of None \<Rightarrow> PNone | Some v \<Rightarrow> v) acc w'
         else Some (Inr (), acc, w'))"
    by (rule while_missing_values [where rg = rg, OF a])
next
  fix res w' repo others nxt
  assume "rg (bitbucket_repos_url self) [] w = (Some res, w') \<and> ok res
      \<and> py_getitem (body res) ''values'' = Inr (PList (PDict repo # others))
      \<and> py_get (body res) ''next'' = Inr nxt \<and> \<not> truthy nxt
      \<and> map_of repo ''language'' = None"
  then have a: "rg (py_str so (PStr (bitbucket_repos_url self))) [] w = (Some res, w')" "ok res"
      "py_getitem (body res) ''values'' = Inr (PList (PDict repo # others))"
      "py_get (body res) ''next'' = Inr nxt" "\<not> truthy nxt"
      "map_of repo ''language'' = None"
    by simp_all
  show p: "bitbucket_process_repos so rg (self, w) = Some (Inl KeyError, (self, w'))"
    by (rule process_repos_missing_language [where rg = rg, OF a])
  show "map_option fst (bitbucket_make_response so rg (self, w)) = Some (Inl KeyError)"
    by (simp add: bitbucket_make_response_def seq_def try_except_def p)
qed


theorem missing_fields_witness:
  "get_result (PDict [(''next'', PStr ''url2'')]) True = Inr (PList [])
   \<and> get_result (PDict [(''next'', PStr ''url2'')]) False = Inr (PInt 0)
   \<and> get_all_results_while id scripted True (PStr ''url'') (PList [])
        [ok_json (PDict [(''next'', PStr ''url2'')]), ok_json one_entry_page] =
      get_all_results_while id scripted True (PStr ''url2'') (PList []) [ok_json one_entry_page]
   \<and> bitbucket_process_repos id scripted (Bitbucket ''test'' ''2.0'', [ok_json no_language_page]) =
      Some (Inl KeyError, (Bitbucket ''test'' ''2.0'', []))"
proof -
  note t = missing_fields [where rg = scripted]
  have 1: "get_result (PDict [(''next'', PStr ''url2'')]) True = Inr (PList [])"
    using t [THEN conjunct1, rule_format, of "[(''next'', PStr ''url2'')]" True] by simp
  have 2: "get_result (PDict [(''next'', PStr ''url2'')]) False = Inr (PInt 0)"
    using t [THEN conjunct1, rule_format, of "[(''next'', PStr ''url2'')]" False] by simp
  have 3: "get_all_results_while id scripted True (PStr ''url'') (PList [])
        [ok_json (PDict [(''next'', PStr ''url2'')]), ok_json one_entry_page] =
      get_all_results_while id scripted True (PStr ''url2'') (PList []) [ok_json one_entry_page]"
    using t [where link = "PStr ''url''"
        and w = "[ok_json (PDict [(''next'', PStr ''url2'')]), ok_json one_entry_page]",
        THEN conjunct2, THEN conjunct1, rule_format,
        where res = "\<lparr>ok = True, body = PDict [(''next'', PStr ''url2'')], headers = []\<rparr>"
        and w' = "[ok_json one_entry_page]" and d = "[(''next'', PStr ''url2'')]"
        and data = True and acc = "PList []" and records = "[]"]
    by (simp add: scripted_def ok_json_def)
  have 4: "bitbucket_process_repos id scripted (Bitbucket ''test'' ''2.0'', [ok_json no_language_page]) =
      Some (Inl KeyError, (Bitbucket ''test'' ''2.0'', []))"
    using t [where self = "Bitbucket ''test'' ''2.0''" and w = "[ok_json no_language_page]",
        THEN conjunct2, THEN conjunct2, rule_format,
        where res = "\<lparr>ok = True, body = no_language_page, headers = []\<rparr>" and w' = "[]"
        and repo = "[(''links'', PDict [(''forks'', PDict [(''href'', PStr ''url'')])]),
                     (''name'', PStr ''test_repo'')]"
        and others = "[]" and nxt = PNone]
    by (simp add: scripted_def ok_json_def no_language_page_def dict_getitem_def)
  from 1 2 3 4 show ?thesis by blast
qed

subsection \<open>The repos structure of the results\<close>

text \<open>A property of the state that a statement keeps, whatever it returns or raises.\<close>

definition preserves :: "('s \<Rightarrow> bool) \<Rightarrow> ('s, 'a) prog \<Rightarrow> bool" where
  "preserves I p \<longleftrightarrow> (\<forall>s r s'. I s \<longrightarrow> p s = Some (r, s') \<longrightarrow> I s')"

lemma preservesD: "preserves I p \<Longrightarrow> I s \<Longrightarrow> p s = Some (r, s') \<Longrightarrow> I s'"
  unfolding preserves_def by blast

lemma preserves_ret [intro!]: "preserves I (ret x)"
  by (simp add: preserves_def ret_def)

lemma preserves_lift [intro!]: "preserves I (lift r)"
  by (simp add: preserves_def lift_def)

lemma preserves_read_self [intro!]: "preserves I (read_self f)"
  by (simp add: preserves_def read_self_def)

lemma preserves_seq [intro!]:
  assumes "preserves I m" "\<And>x. preserves I (f x)"
  shows "preserves I (seq m f)"
  unfolding preserves_def
proof (intro allI impI)
  fix s r s'
  assume I: "I s" and run: "seq m f s = Some (r, s')"
  show "I s'"
  proof (cases "m s")
    case None
    with run show ?thesis by (simp add: seq_def)
  next
    case (Some a)
    obtain r1 s1 where a: "a = (r1, s1)" by (cases a)
    have I1: "I s1"
      using assms(1) I Some a by (blast dest: preservesD)
    show ?thesis
    proof (cases r1)
      case (Inl e)
      with run Some a I1 show ?thesis by (simp add: seq_def)
    next
      case (Inr x)
      with run Some a have "f x s1 = Some (r, s')" by (simp add: seq_def)
      with assms(2) I1 show ?thesis by (blast dest: preservesD)
    qed
  qed
qed

lemma preserves_try_except [intro!]:
  assumes "preserves I m" "preserves I h"
  shows "preserves I (try_except m e h)"
  unfolding preserves_def
proof (intro allI impI)
  fix s r s'
  assume I: "I s" and run: "try_except m e h s = Some (r, s')"
  show "I s'"
  proof (cases "m s")
    case None
    with run show ?thesis by (simp add: try_except_def)
  next
    case (Some a)
    obtain r1 s1 where a: "a = (r1, s1)" by (cases a)
    have I1: "I s1"
      using assms(1) I Some a by (blast dest: preservesD)
    show ?thesis
    proof (cases r1)
      case (Inl e')
      with run Some a I1 assms(2) show ?thesis
        by (auto simp: try_except_def split: if_splits dest: preservesD)
    next
      case (Inr x)
      with run Some a I1 show ?thesis by (simp add: try_except_def)
    qed
  qed
qed

lemma preserves_for_each [intro!]:
  assumes "\<And>x. preserves I (f x)"
  shows "preserves I (for_each f xs)"
  unfolding preserves_def
proof (intro allI impI)
  fix s r s'
  assume "I s" "for_each f xs s = Some (r, s')"
  then show "I s'"
  proof (induction xs arbitrary: s)
    case Nil
    then show ?case by simp
  next
    case (Cons x xs)
    show ?case
    proof (cases "f x s")
      case None
      with Cons.prems show ?thesis by simp
    next
      case (Some a)
      obtain r1 s1 where a: "a = (r1, s1)" by (cases a)
      have I1: "I s1"
        using assms [of x] Cons.prems(1) Some a by (blast dest: preservesD)
      show ?thesis
      proof (cases r1)
        case (Inl e)
        with Cons.prems Some a I1 show ?thesis by simp
      next
        case (Inr u)
        with Cons.prems Some a have "for_each f xs s1 = Some (r, s')" by simp
        with Cons.IH I1 show ?thesis by blast
      qed
    qed
  qed
qed

lemma preserves_in_world [intro!]: "preserves (\<lambda>s. P (fst s)) (in_world m)"
  by (auto simp: preserves_def in_world_def split: option.splits)

lemma preserves_on_self [intro]:
  assumes "\<And>v r v'. P v \<Longrightarrow> f v = (r, v') \<Longrightarrow> P v'"
  shows "preserves (\<lambda>s. P (fst s)) (on_self f)"
  using assms by (auto simp: preserves_def on_self_def split: prod.splits)


text \<open>
  While a collector runs, \<^verbatim>\<open>self.repos\<close> keeps its two keys and \<^verbatim>\<open>self.results\<close> stays
  empty.
\<close>

definition repos_shape :: "'a bitbucket_scheme \<times> 'w \<Rightarrow> bool" where
  "repos_shape s \<longleftrightarrow>
     map fst (repos (fst s)) = [''forked'', ''unforked''] \<and> results (fst s) = []"

lemma dict_incr_keys:
  assumes "dict_incr k d = Inr d'"
  shows "map fst d' = map fst d"
proof -
  from assms obtain n where n: "map_of d k = Some n" and d': "d' = AList.update k (n + 1) d"
    by (auto simp: dict_incr_def split: option.splits)
  from n have "(k, n) \<in> set d" by (rule map_of_SomeD)
  then have "k \<in> set (map fst d)" by force
  then show ?thesis
    unfolding d' by (simp add: update_keys)
qed

lemma shape_assign:
  assumes "\<And>v v'. f v = Inr v' \<Longrightarrow> repos v' = repos v \<and> results v' = results v"
  shows "preserves repos_shape (on_self (assign f))"
  unfolding preserves_def
proof (intro allI impI)
  fix s :: "'a bitbucket_scheme \<times> 'b" and r s'
  assume s: "repos_shape s" and run: "on_self (assign f) s = Some (r, s')"
  show "repos_shape s'"
  proof (cases "f (fst s)")
    case (Inl e)
    with run s show ?thesis
      by (auto simp: on_self_def assign_def repos_shape_def)
  next
    case (Inr v')
    with run s assms [OF Inr] show ?thesis
      by (auto simp: on_self_def assign_def repos_shape_def)
  qed
qed

lemma shape_in_world: "preserves repos_shape (in_world m)"
  by (auto simp: preserves_def in_world_def repos_shape_def split: option.splits)

lemma shape_repos_incr: "preserves repos_shape (repos_incr k)"
  unfolding preserves_def
proof (intro allI impI)
  fix s :: "'a bitbucket_scheme \<times> 'b" and r s'
  assume s: "repos_shape s" and run: "repos_incr k s = Some (r, s')"
  show "repos_shape s'"
  proof (cases "dict_incr k (repos (fst s))")
    case (Inl e)
    with run s show ?thesis
      by (auto simp: repos_incr_def on_self_def assign_def repos_shape_def)
  next
    case (Inr d')
    with run s dict_incr_keys [OF Inr] show ?thesis
      by (auto simp: repos_incr_def on_self_def assign_def repos_shape_def)
  qed
qed

lemma shape_bitbucket_update_repo_count:
  "preserves repos_shape (bitbucket_update_repo_count so rg link)"
  unfolding bitbucket_update_repo_count_def
  by (intro preserves_try_except preserves_seq shape_in_world preserves_lift shape_repos_incr)
     (simp add: shape_repos_incr)

lemma shape_bitbucket_process_repo:
  "preserves repos_shape (bitbucket_process_repo so rg repo)"
  unfolding bitbucket_process_repo_def bitbucket_update_languages_def
    bitbucket_update_watchers_count_def
  by (intro preserves_seq shape_in_world preserves_lift preserves_read_self
      shape_bitbucket_update_repo_count shape_assign)
     (auto simp: bindE_eq_Inr)

lemma shape_bitbucket_process_repos:
  "preserves repos_shape (bitbucket_process_repos so rg)"
  unfolding bitbucket_process_repos_def bitbucket_get_followers_count_def
  by (intro preserves_seq preserves_for_each shape_in_world preserves_lift preserves_read_self
      shape_bitbucket_process_repo shape_assign)
     (auto simp: bindE_eq_Inr)

lemma shape_set_update:
  "preserves repos_shape (on_self (\<lambda>self. case set_update (languages self) xs of
      (r, s) \<Rightarrow> (r, self\<lparr>languages := s\<rparr>)))"
  "preserves repos_shape (on_self (\<lambda>self. case set_update (topics self) xs of
      (r, s) \<Rightarrow> (r, self\<lparr>topics := s\<rparr>)))"
  by (auto simp: preserves_def on_self_def repos_shape_def split: prod.splits)

lemma shape_github_get_followers_count:
  "preserves repos_shape (github_get_followers_count rg)"
  unfolding github_get_followers_count_def
  apply (intro preserves_try_except preserves_seq shape_in_world preserves_read_self preserves_ret)
  subgoal for link data
    by (cases "if snd data \<noteq> [] then header_link (snd data) else None")
       (auto intro!: preserves_seq preserves_lift shape_assign)
  done

lemma shape_github_process_repo:
  "preserves repos_shape (github_process_repo so rg repo)"
  unfolding github_process_repo_def github_update_languages_def github_update_repo_count_def
    github_update_topics_def github_update_watchers_count_def
  by (intro preserves_seq preserves_try_except shape_in_world preserves_lift preserves_read_self
      preserves_ret shape_set_update)
     (auto simp: bindE_eq_Inr intro!: shape_repos_incr preserves_seq preserves_lift preserves_ret
        shape_set_update shape_assign)

lemma shape_github_process_repos:
  "preserves repos_shape (github_process_repos so rg)"
  unfolding github_process_repos_def
  by (intro preserves_seq preserves_for_each shape_in_world preserves_read_self
      shape_github_process_repo shape_github_get_followers_count)

lemma two_keys:
  assumes "map fst xs = [a, b]"
  obtains x y where "xs = [(a, x), (b, y)]"
  using assms by (cases xs; cases "tl xs") auto

lemma bitbucket_result_repos:
  assumes "bitbucket_make_response so rg (Bitbucket organization version, w) = Some (Inr d, s)"
  shows "\<exists>f u. map_of d ''repos'' = Some (PDict [(''forked'', PInt f), (''unforked'', PInt u)])"
proof -
  let ?s0 = "(Bitbucket organization version, w)"
  let ?guarded = "try_except (bitbucket_process_repos so rg) ConnectionResetError (ret ())"
  have s0: "repos_shape ?s0"
    by (simp add: repos_shape_def Bitbucket_def)
  from assms obtain r1 s1 where t: "?guarded ?s0 = Some (r1, s1)"
    unfolding bitbucket_make_response_def by (cases "?guarded ?s0") (auto simp: seq_def)
  have "preserves repos_shape ?guarded"
    by (intro preserves_try_except shape_bitbucket_process_repos preserves_ret)
  from preservesD [OF this s0 t] have s1: "repos_shape s1" .
  then obtain f u where r: "repos (fst s1) = [(''forked'', f), (''unforked'', u)]"
    unfolding repos_shape_def by (auto elim: two_keys)
  from s1 have e: "results (fst s1) = []"
    by (simp add: repos_shape_def)
  from assms t have "r1 = Inr ()"
    unfolding bitbucket_make_response_def by (cases r1) (auto simp: seq_def)
  with assms t have "map_of d ''repos'' = Some (PDict [(''forked'', PInt f), (''unforked'', PInt u)])"
    unfolding bitbucket_make_response_def
    by (auto simp: seq_def on_self_def assign_def read_self_def r e repos_value_def)
  then show ?thesis by blast
qed

lemma github_result_repos:
  assumes "github_make_response so rg (Github organization, w) = Some (Inr d, s)"
  shows "\<exists>f u. map_of d ''repos'' = Some (PDict [(''forked'', PInt f), (''unforked'', PInt u)])"
proof -
  let ?s0 = "(Github organization, w)"
  let ?guarded = "try_except (github_process_repos so rg) ConnectionResetError (ret ())"
  have s0: "repos_shape ?s0"
    by (simp add: repos_shape_def Github_def)
  from assms obtain r1 s1 where t: "?guarded ?s0 = Some (r1, s1)"
    unfolding github_make_response_def by (cases "?guarded ?s0") (auto simp: seq_def)
  have "preserves repos_shape ?guarded"
    by (intro preserves_try_except shape_github_process_repos preserves_ret)
  from preservesD [OF this s0 t] have s1: "repos_shape s1" .
  then obtain f u where r: "repos (fst s1) = [(''forked'', f), (''unforked'', u)]"
    unfolding repos_shape_def by (auto elim: two_keys)
  from s1 have e: "results (fst s1) = []"
    by (simp add: repos_shape_def)
  from assms t have "r1 = Inr ()"
    unfolding github_make_response_def by (cases r1) (auto simp: seq_def)
  with assms t have "map_of d ''repos'' = Some (PDict [(''forked'', PInt f), (''unforked'', PInt u)])"
    unfolding github_make_response_def
    by (auto simp: seq_def on_self_def assign_def read_self_def r e repos_value_def)
  then show ?thesis by blast
qed

lemma combine_repos_count:
  assumes "combine so A B = Inr r"
  shows "repos_count_ok r"
  using assms unfolding combine_def Let_def
  apply (elim bindE_InrE)
  apply (clarsimp simp: dict_setitem2_def repos_count_ok_def)
  done

text \<open>
  The claim fails for a per-platform result: the dict that \<^verbatim>\<open>make_response\<close> of the
  Bitbucket collector returns for the mocked responses of the unit test has a repos
  structure without a \<^verbatim>\<open>count\<close> entry.
\<close>

theorem per_platform_repos_has_no_count:
  "map_option fst (bitbucket_make_response id scripted (Bitbucket ''test'' ''2.0'',
       [ok_json one_repo_page, ok_json one_entry_page, ok_json one_entry_page,
        ok_json one_entry_page])) =
     Some (Inr [(''followers'', PInt 1), (''languages'', PSet [PStr ''python'']),
                (''repos'', PDict [(''forked'', PInt 1), (''unforked'', PInt 0)]),
                (''watchers'', PInt 1)])
   \<and> \<not> repos_count_ok [(''followers'', PInt 1), (''languages'', PSet [PStr ''python'']),
                (''repos'', PDict [(''forked'', PInt 1), (''unforked'', PInt 0)]),
                (''watchers'', PInt 1)]"
  by (simp add: bitbucket_defs value_defs prog_defs while_unfold Bitbucket_def scripted_def
      ok_json_def one_repo_page_def one_entry_page_def bitbucket_repos_url_def repos_count_ok_def
      cong: sum.case_cong_weak)

text \<open>
  C2, as the code has it. Every dict returned by the merge function satisfies
  \<^verbatim>\<open>repos.count == repos.forked + repos.unforked\<close>. Every dict returned by \<^verbatim>\<open>make_response\<close>
  of either collector, started on a fresh object, has a repos structure with exactly the
  entries \<^verbatim>\<open>forked\<close> and \<^verbatim>\<open>unforked\<close>, and no \<^verbatim>\<open>count\<close>.
\<close>

theorem repos_count_of_results:
  "(\<forall>A B r. combine so A B = Inr r \<longrightarrow> repos_count_ok r)
   \<and> (\<forall>d s. bitbucket_make_response so rg (Bitbucket organization version, w) = Some (Inr d, s) \<longrightarrow>
        (\<exists>f u. map_of d ''repos'' = Some (PDict [(''forked'', PInt f), (''unforked'', PInt u)])))
   \<and> (\<forall>d s. github_make_response so rg (Github organization, w) = Some (Inr d, s) \<longrightarrow>
        (\<exists>f u. map_of d ''repos'' = Some (PDict [(''forked'', PInt f), (''unforked'', PInt u)])))"
  using combine_repos_count
    bitbucket_result_repos [where so = so and rg = rg and organization = organization
      and version = version and w = w]
    github_result_repos [where so = so and rg = rg and organization = organization and w = w]
  by blast

theorem repos_count_of_results_witness:
  "repos_count_ok
     [(''languages'', PDict [(''list'', PList [PStr ''python'', PStr ''javascript'']), (''count'', PInt 2)]),
      (''topics'', PDict [(''list'', PList [PStr ''flask'']), (''count'', PInt 1)]),
      (''repos'', PDict [(''forked'', PInt 2), (''unforked'', PInt 2), (''count'', PInt 4)]),
      (''followers'', PInt 2), (''watchers'', PInt 2)]
   \<and> (\<exists>f u. map_of [(''followers'', PInt 0), (''languages'', PSet []),
                      (''repos'', PDict [(''forked'', PInt 0), (''unforked'', PInt 0)]),
                      (''watchers'', PInt 0)] ''repos'' =
              Some (PDict [(''forked'', PInt f), (''unforked'', PInt u)]))
   \<and> (\<exists>f u. map_of [(''followers'', PInt 0), (''languages'', PSet []),
                      (''repos'', PDict [(''forked'', PInt 0), (''unforked'', PInt 0)]),
                      (''topics'', PList []), (''watchers'', PInt 0)] ''repos'' =
              Some (PDict [(''forked'', PInt f), (''unforked'', PInt u)]))"
proof -
  have c: "combine id test_bitbucket test_github = Inr
     [(''languages'', PDict [(''list'', PList [PStr ''python'', PStr ''javascript'']), (''count'', PInt 2)]),
      (''topics'', PDict [(''list'', PList [PStr ''flask'']), (''count'', PInt 1)]),
      (''repos'', PDict [(''forked'', PInt 2), (''unforked'', PInt 2), (''count'', PInt 4)]),
      (''followers'', PInt 2), (''watchers'', PInt 2)]"
    by (simp add: combine_def test_bitbucket_def test_github_def dict_getitem_def
        dict_setitem2_def set_updated_def set_add_def)
  have b: "bitbucket_make_response id (stateless (\<lambda>u h. None)) (Bitbucket ''test'' ''2.0'', ()) =
      Some (Inr [(''followers'', PInt 0), (''languages'', PSet []),
                 (''repos'', PDict [(''forked'', PInt 0), (''unforked'', PInt 0)]),
                 (''watchers'', PInt 0)],
            (Bitbucket ''test'' ''2.0''\<lparr>results :=
                [(''followers'', PInt 0), (''languages'', PSet []),
                 (''repos'', PDict [(''forked'', PInt 0), (''unforked'', PInt 0)]),
                 (''watchers'', PInt 0)]\<rparr>, ()))"
    by (simp add: bitbucket_defs prog_defs while_unfold Bitbucket_def stateless_def
        bitbucket_repos_url_def cong: sum.case_cong_weak)
  have g: "github_make_response id (stateless (\<lambda>u h. None)) (Github ''test'', ()) =
      Some (Inr [(''followers'', PInt 0), (''languages'', PSet []),
                 (''repos'', PDict [(''forked'', PInt 0), (''unforked'', PInt 0)]),
                 (''topics'', PList []), (''watchers'', PInt 0)],
            (Github ''test''\<lparr>results :=
                [(''followers'', PInt 0), (''languages'', PSet []),
                 (''repos'', PDict [(''forked'', PInt 0), (''unforked'', PInt 0)]),
                 (''topics'', PList []), (''watchers'', PInt 0)]\<rparr>, ()))"
    by (simp add: github_make_response_def github_process_repos_def get_all_repos_def
        get_all_repos_try_def github_make_api_call_def prog_defs Github_def stateless_def
        repos_value_def)
  note t = repos_count_of_results [where rg = "stateless (\<lambda>u h. None)" and organization = "''test''"
      and version = "''2.0''" and w = "()"]
  from t [THEN conjunct1, rule_format, OF c]
    t [THEN conjunct2, THEN conjunct1, rule_format, OF b]
    t [THEN conjunct2, THEN conjunct2, rule_format, OF g]
  show ?thesis by blast
qed

subsection \<open>Fork classification of the Bitbucket collector\<close>

text \<open>The two scenarios with the mock of the unit tests, which serves its answers in order.\<close>

lemma scenario_unforked:
  "map_option fst (bitbucket_make_response so scripted (Bitbucket ''test'' ''2.0'',
       [ok_json one_repo_page, ok_json empty_page, ok_json one_entry_page, ok_json one_entry_page])) =
     Some (Inr [(''followers'', PInt 1), (''languages'', PSet [PStr ''python'']),
                (''repos'', PDict [(''forked'', PInt 0), (''unforked'', PInt 1)]),
                (''watchers'', PInt 1)])"
  by (simp add: bitbucket_defs value_defs prog_defs while_unfold Bitbucket_def scripted_def
      ok_json_def one_repo_page_def one_entry_page_def empty_page_def cong: sum.case_cong_weak)

lemma scenario_forked:
  "map_option fst (bitbucket_make_response so scripted (Bitbucket ''test'' ''2.0'',
       [ok_json one_repo_page, ok_json one_entry_page, ok_json one_entry_page, ok_json one_entry_page])) =
     Some (Inr [(''followers'', PInt 1), (''languages'', PSet [PStr ''python'']),
                (''repos'', PDict [(''forked'', PInt 1), (''unforked'', PInt 0)]),
                (''watchers'', PInt 1)])"
  by (simp add: bitbucket_defs value_defs prog_defs while_unfold Bitbucket_def scripted_def
      ok_json_def one_repo_page_def one_entry_page_def empty_page_def cong: sum.case_cong_weak)

lemma update_repo_count_ok:
  assumes "rg (py_str so link) [] w = (Some res, w')" "ok res"
    "py_getitem (body res) ''values'' = Inr (PList entries)"
    "map_of (repos self) ''forked'' = Some f" "map_of (repos self) ''unforked'' = Some u"
  shows "bitbucket_update_repo_count so rg link (self, w) =
     Some (Inr (), (self\<lparr>repos := (if entries = [] then AList.update ''unforked'' (u + 1) (repos self)
                                      else AList.update ''forked'' (f + 1) (repos self))\<rparr>, w'))"
  using assms
  by (simp add: bitbucket_update_repo_count_def bitbucket_make_api_call_def repos_incr_def
      dict_incr_def prog_defs)

lemma update_repo_count_invalid:
  assumes "rg (py_str so link) [] w = (Some res, w')" "\<not> ok res"
    "map_of (repos self) ''unforked'' = Some u"
  shows "bitbucket_update_repo_count so rg link (self, w) =
     Some (Inr (), (self\<lparr>repos := AList.update ''unforked'' (u + 1) (repos self)\<rparr>, w'))"
  using assms
  by (simp add: bitbucket_update_repo_count_def bitbucket_make_api_call_def repos_incr_def
      dict_incr_def prog_defs)

lemma process_repo_classified:
  fixes self :: bitbucket
  assumes "py_getitem repo ''language'' = Inr language"
    and "set_add language (languages self) = Inr known"
    and "py_getitem repo ''links'' = Inr links" "py_getitem links ''forks'' = Inr forks"
    and "py_getitem forks ''href'' = Inr href"
    and "bitbucket_update_repo_count so rg href (self\<lparr>languages := known\<rparr>, w) =
           Some (Inr (), (self\<lparr>languages := known, repos := X\<rparr>, w1))"
  shows "bitbucket_process_repo so rg repo (self, w) =
     seq (lift (py_getitem repo ''name'')) (bitbucket_update_watchers_count so rg)
       (self\<lparr>languages := known, repos := X\<rparr>, w1)"
  using assms
  by (simp add: bitbucket_process_repo_def bitbucket_update_languages_def
      seq_def lift_def on_self_def assign_def)

lemma watchers_keeps_repos:
  "preserves (\<lambda>s. repos (fst s) = X)
     (seq (lift (py_getitem repo ''name'')) (bitbucket_update_watchers_count so rg))"
  unfolding bitbucket_update_watchers_count_def
  by (intro preserves_seq preserves_lift preserves_read_self preserves_in_world preserves_on_self)
     (auto simp: assign_def bindE_def split: sum.splits)

lemma fork_scenario_unforked:
  "map_option (\<lambda>x. (fst x, snd (snd (snd x))))
     (bitbucket_make_response so (recording (stateless (fork_remote (ok_json empty_page))))
       (Bitbucket ''test'' ''2.0'', ((), []))) =
     Some (Inr [(''followers'', PInt 1), (''languages'', PSet [PStr ''python'']),
                (''repos'', PDict [(''forked'', PInt 0), (''unforked'', PInt 1)]),
                (''watchers'', PInt 1)],
           [''https://api.bitbucket.org/2.0/repositories/test?pagelen=100'', ''url'',
            ''https://api.bitbucket.org/2.0/repositories/test/test_repo/watchers?pagelen=100'',
            ''https://api.bitbucket.org/2.0/teams/test/followers?pagelen=100''])"
  by (simp add: bitbucket_defs value_defs prog_defs while_unfold Bitbucket_def recording_def
      stateless_def fork_remote_def ok_json_def one_repo_page_def one_entry_page_def empty_page_def
      bitbucket_repos_url_def cong: sum.case_cong_weak)

lemma fork_scenario_forked:
  "map_option (\<lambda>x. (fst x, snd (snd (snd x))))
     (bitbucket_make_response so (recording (stateless (fork_remote (ok_json one_entry_page))))
       (Bitbucket ''test'' ''2.0'', ((), []))) =
     Some (Inr [(''followers'', PInt 1), (''languages'', PSet [PStr ''python'']),
                (''repos'', PDict [(''forked'', PInt 1), (''unforked'', PInt 0)]),
                (''watchers'', PInt 1)],
           [''https://api.bitbucket.org/2.0/repositories/test?pagelen=100'', ''url'',
            ''https://api.bitbucket.org/2.0/repositories/test/test_repo/watchers?pagelen=100'',
            ''https://api.bitbucket.org/2.0/teams/test/followers?pagelen=100''])"
  by (simp add: bitbucket_defs value_defs prog_defs while_unfold Bitbucket_def recording_def
      stateless_def fork_remote_def ok_json_def one_repo_page_def one_entry_page_def empty_page_def
      bitbucket_repos_url_def cong: sum.case_cong_weak)

lemma fork_scenario_invalid:
  "map_option (\<lambda>x. (fst x, snd (snd (snd x))))
     (bitbucket_make_response so (recording (stateless (fork_remote not_ok)))
       (Bitbucket ''test'' ''2.0'', ((), []))) =
     Some (Inr [(''followers'', PInt 1), (''languages'', PSet [PStr ''python'']),
                (''repos'', PDict [(''forked'', PInt 0), (''unforked'', PInt 1)]),
                (''watchers'', PInt 1)],
           [''https://api.bitbucket.org/2.0/repositories/test?pagelen=100'', ''url'',
            ''https://api.bitbucket.org/2.0/repositories/test/test_repo/watchers?pagelen=100'',
            ''https://api.bitbucket.org/2.0/teams/test/followers?pagelen=100''])"
  by (simp add: bitbucket_defs value_defs prog_defs while_unfold Bitbucket_def recording_def
      stateless_def fork_remote_def ok_json_def not_ok_def one_repo_page_def one_entry_page_def empty_page_def
      bitbucket_repos_url_def cong: sum.case_cong_weak)

text \<open>
  C3. The Bitbucket collector processes a repository record by adding its language and
  then requesting the record's own fork-listing link, \<^verbatim>\<open>repo['links']['forks']['href']\<close>;
  this is the first request it makes for the record. Whatever the transport, when the
  answer to that request is ok and lists entries, the record counts as forked if and only
  if there is at least one entry, and as unforked otherwise; when the answer is the
  invalid-resource failure, it counts as unforked. The watcher requests that follow leave
  the classification as it is. On a remote side that answers by URL, one repository with
  an empty fork listing gives repos forked 0 and unforked 1, one with a non-empty fork
  listing gives forked 1 and unforked 0, the fork listing being requested at the record's
  link.
\<close>

theorem bitbucket_fork_classification:
  fixes self :: bitbucket
  assumes "py_getitem repo ''language'' = Inr language" "hashable language"
    and "py_getitem repo ''links'' = Inr links" "py_getitem links ''forks'' = Inr forks"
    and "py_getitem forks ''href'' = Inr href"
    and "map_of (repos self) ''forked'' = Some f" "map_of (repos self) ''unforked'' = Some u"
    and "rg (py_str so href) [] w = (Some res, w1)"
    and "bitbucket_process_repo so rg repo (self, w) = Some (r, (self', w'))"
  shows
    "(\<forall>entries. ok res \<and> py_getitem (body res) ''values'' = Inr (PList entries) \<longrightarrow>
        repos self' = (if entries = [] then AList.update ''unforked'' (u + 1) (repos self)
                       else AList.update ''forked'' (f + 1) (repos self)))
     \<and> (\<not> ok res \<longrightarrow> repos self' = AList.update ''unforked'' (u + 1) (repos self))
     \<and> map_option (\<lambda>x. (fst x, snd (snd (snd x))))
         (bitbucket_make_response so (recording (stateless (fork_remote (ok_json empty_page))))
           (Bitbucket ''test'' ''2.0'', ((), []))) =
        Some (Inr [(''followers'', PInt 1), (''languages'', PSet [PStr ''python'']),
                   (''repos'', PDict [(''forked'', PInt 0), (''unforked'', PInt 1)]),
                   (''watchers'', PInt 1)],
              [''https://api.bitbucket.org/2.0/repositories/test?pagelen=100'', ''url'',
               ''https://api.bitbucket.org/2.0/repositories/test/test_repo/watchers?pagelen=100'',
               ''https://api.bitbucket.org/2.0/teams/test/followers?pagelen=100''])
     \<and> map_option (\<lambda>x. (fst x, snd (snd (snd x))))
         (bitbucket_make_response so (recording (stateless (fork_remote (ok_json one_entry_page))))
           (Bitbucket ''test'' ''2.0'', ((), []))) =
        Some (Inr [(''followers'', PInt 1), (''languages'', PSet [PStr ''python'']),
                   (''repos'', PDict [(''forked'', PInt 1), (''unforked'', PInt 0)]),
                   (''watchers'', PInt 1)],
              [''https://api.bitbucket.org/2.0/repositories/test?pagelen=100'', ''url'',
               ''https://api.bitbucket.org/2.0/repositories/test/test_repo/watchers?pagelen=100'',
               ''https://api.bitbucket.org/2.0/teams/test/followers?pagelen=100''])"
proof -
  obtain known where known: "set_add language (languages self) = Inr known"
    using assms(2) by (simp add: set_add_def)
  let ?self1 = "self\<lparr>languages := known\<rparr>"
  let ?rest = "seq (lift (py_getitem repo ''name'')) (bitbucket_update_watchers_count so rg)"
  have r1: "map_of (repos ?self1) ''forked'' = Some f" "map_of (repos ?self1) ''unforked'' = Some u"
    using assms(6,7) by simp_all
  have kept: "repos self' = X"
    if "bitbucket_update_repo_count so rg href (?self1, w) =
          Some (Inr (), (self\<lparr>languages := known, repos := X\<rparr>, w1))" for X
  proof -
    have "bitbucket_process_repo so rg repo (self, w) = ?rest (self\<lparr>languages := known, repos := X\<rparr>, w1)"
      by (rule process_repo_classified [OF assms(1) known assms(3,4,5) that])
    then have "?rest (self\<lparr>languages := known, repos := X\<rparr>, w1) = Some (r, (self', w'))"
      using assms(9) by simp
    from preservesD [OF watchers_keeps_repos [where X = X and repo = repo and so = so and rg = rg] _ this]
    show ?thesis by simp
  qed
  have a: "repos self' = (if entries = [] then AList.update ''unforked'' (u + 1) (repos self)
                       else AList.update ''forked'' (f + 1) (repos self))"
    if "ok res" "py_getitem (body res) ''values'' = Inr (PList entries)" for entries
    using update_repo_count_ok [where rg = rg, OF assms(8) that r1]
    by (intro kept) simp
  have b: "repos self' = AList.update ''unforked'' (u + 1) (repos self)" if "\<not> ok res"
    using update_repo_count_invalid [where rg = rg, OF assms(8) that r1(2)]
    by (intro kept) simp
  from a b fork_scenario_unforked fork_scenario_forked show ?thesis
    by blast
qed

lemma test_repo_unforked:
  "bitbucket_process_repo so (stateless (fork_remote (ok_json empty_page))) test_repo
     (Bitbucket ''test'' ''2.0'', ()) =
   Some (Inr (), (Bitbucket ''test'' ''2.0''
     \<lparr>languages := [PStr ''python''], repos := [(''forked'', 0), (''unforked'', 1)],
       watchers := 1\<rparr>, ()))"
  by (simp add: bitbucket_defs value_defs prog_defs while_unfold Bitbucket_def
      stateless_def fork_remote_def ok_json_def test_repo_def one_entry_page_def empty_page_def
      cong: sum.case_cong_weak)

lemma test_repo_forked:
  "bitbucket_process_repo so (stateless (fork_remote (ok_json one_entry_page))) test_repo
     (Bitbucket ''test'' ''2.0'', ()) =
   Some (Inr (), (Bitbucket ''test'' ''2.0''
     \<lparr>languages := [PStr ''python''], repos := [(''forked'', 1), (''unforked'', 0)],
       watchers := 1\<rparr>, ()))"
  by (simp add: bitbucket_defs value_defs prog_defs while_unfold Bitbucket_def
      stateless_def fork_remote_def ok_json_def test_repo_def one_entry_page_def empty_page_def
      cong: sum.case_cong_weak)

lemma test_repo_invalid:
  "bitbucket_process_repo so (stateless (fork_remote not_ok)) test_repo
     (Bitbucket ''test'' ''2.0'', ()) =
   Some (Inr (), (Bitbucket ''test'' ''2.0''
     \<lparr>languages := [PStr ''python''], repos := [(''forked'', 0), (''unforked'', 1)],
       watchers := 1\<rparr>, ()))"
  by (simp add: bitbucket_defs value_defs prog_defs while_unfold Bitbucket_def
      stateless_def fork_remote_def ok_json_def not_ok_def test_repo_def one_entry_page_def
      empty_page_def cong: sum.case_cong_weak)

text \<open>
  The theorem at the repository of the unit tests, with an empty fork listing, a fork
  listing of one entry and an invalid fork-listing link.
\<close>

theorem bitbucket_fork_classification_witness:
  "repos (fst (snd (the (bitbucket_process_repo id (stateless (fork_remote (ok_json empty_page)))
      test_repo (Bitbucket ''test'' ''2.0'', ()))))) = [(''forked'', 0), (''unforked'', 1)]
   \<and> repos (fst (snd (the (bitbucket_process_repo id (stateless (fork_remote (ok_json one_entry_page)))
      test_repo (Bitbucket ''test'' ''2.0'', ()))))) = [(''forked'', 1), (''unforked'', 0)]
   \<and> repos (fst (snd (the (bitbucket_process_repo id (stateless (fork_remote not_ok))
      test_repo (Bitbucket ''test'' ''2.0'', ()))))) = [(''forked'', 0), (''unforked'', 1)]"
proof -
  have fields: "py_getitem test_repo ''language'' = Inr (PStr ''python'')"
    "hashable (PStr ''python'')"
    "py_getitem test_repo ''links'' = Inr (PDict [(''forks'', PDict [(''href'', PStr ''url'')])])"
    "py_getitem (PDict [(''forks'', PDict [(''href'', PStr ''url'')])]) ''forks'' =
       Inr (PDict [(''href'', PStr ''url'')])"
    "py_getitem (PDict [(''href'', PStr ''url'')]) ''href'' = Inr (PStr ''url'')"
    "map_of (repos (Bitbucket ''test'' ''2.0'')) ''forked'' = Some 0"
    "map_of (repos (Bitbucket ''test'' ''2.0'')) ''unforked'' = Some 0"
    by (simp_all add: test_repo_def dict_getitem_def Bitbucket_def)
  note c = bitbucket_fork_classification [OF fields]
  have q1: "stateless (fork_remote (ok_json empty_page)) (py_str id (PStr ''url'')) [] () =
      (Some \<lparr>ok = True, body = empty_page, headers = []\<rparr>, ())"
    and q2: "stateless (fork_remote (ok_json one_entry_page)) (py_str id (PStr ''url'')) [] () =
      (Some \<lparr>ok = True, body = one_entry_page, headers = []\<rparr>, ())"
    and q3: "stateless (fork_remote not_ok) (py_str id (PStr ''url'')) [] () =
      (Some \<lparr>ok = False, body = PNone, headers = []\<rparr>, ())"
    by (simp_all add: stateless_def fork_remote_def ok_json_def not_ok_def)
  have v1: "ok \<lparr>ok = True, body = empty_page, headers = []\<rparr>
      \<and> py_getitem (body \<lparr>ok = True, body = empty_page, headers = []\<rparr>) ''values'' = Inr (PList [])"
    and v2: "ok \<lparr>ok = True, body = one_entry_page, headers = []\<rparr>
      \<and> py_getitem (body \<lparr>ok = True, body = one_entry_page, headers = []\<rparr>) ''values'' =
          Inr (PList [PDict [(''entry'', PStr ''data'')]])"
    and v3: "\<not> ok \<lparr>ok = False, body = PNone, headers = []\<rparr>"
    by (simp_all add: empty_page_def one_entry_page_def dict_getitem_def)
  have 1: "repos (fst (snd (the (bitbucket_process_repo id (stateless (fork_remote (ok_json empty_page)))
      test_repo (Bitbucket ''test'' ''2.0'', ()))))) = [(''forked'', 0), (''unforked'', 1)]"
    using c [OF q1 test_repo_unforked, THEN conjunct1, rule_format, OF v1]
    unfolding test_repo_unforked by (simp add: Bitbucket_def)
  have 2: "repos (fst (snd (the (bitbucket_process_repo id (stateless (fork_remote (ok_json one_entry_page)))
      test_repo (Bitbucket ''test'' ''2.0'', ()))))) = [(''forked'', 1), (''unforked'', 0)]"
    using c [OF q2 test_repo_forked, THEN conjunct1, rule_format, OF v2]
    unfolding test_repo_forked by (simp add: Bitbucket_def)
  have 3: "repos (fst (snd (the (bitbucket_process_repo id (stateless (fork_remote not_ok))
      test_repo (Bitbucket ''test'' ''2.0'', ()))))) = [(''forked'', 0), (''unforked'', 1)]"
    using c [OF q3 test_repo_invalid, THEN conjunct2, THEN conjunct1, rule_format, OF v3]
    unfolding test_repo_invalid by (simp add: Bitbucket_def)
  from 1 2 3 show ?thesis by blast
qed
subsection \<open>Determinism of the collectors\<close>



























lemmas github_defs =
  github_make_response_def github_process_repos_def github_process_repo_def
  github_update_languages_def github_update_repo_count_def github_update_topics_def
  github_update_watchers_count_def github_get_followers_count_def github_followers_url_def
  get_all_repos_def get_all_repos_try_def get_all_repos_page_def extend_results_def
  github_make_api_call_def header_link_def repos_incr_def repos_value_def



lemma topics_in_order:
  "map_option fst (github_make_response id (stateless topics_remote) (Github ''test'', ())) =
     Some (Inr [(''followers'', PInt 1), (''languages'', PSet [PStr ''php'']),
                (''repos'', PDict [(''forked'', PInt 1), (''unforked'', PInt 0)]),
                (''topics'', PList [PStr ''flask'', PStr ''api'']), (''watchers'', PInt 1)])"
  by (simp add: github_defs value_defs prog_defs Github_def
      stateless_def topics_remote_def ok_json_def py_lower_def lower_char_def upper_letters_def
      lower_letters_def cong: sum.case_cong_weak)

lemma topics_reversed:
  "map_option fst (github_make_response rev (stateless topics_remote) (Github ''test'', ())) =
     Some (Inr [(''followers'', PInt 1), (''languages'', PSet [PStr ''php'']),
                (''repos'', PDict [(''forked'', PInt 1), (''unforked'', PInt 0)]),
                (''topics'', PList [PStr ''api'', PStr ''flask'']), (''watchers'', PInt 1)])"
  by (simp add: github_defs value_defs prog_defs Github_def iter_order_def
      stateless_def topics_remote_def ok_json_def py_lower_def lower_char_def upper_letters_def
      lower_letters_def cong: sum.case_cong_weak)

text \<open>
  Against C9 as it is worded: the Github collector returns \<^verbatim>\<open>list(self.topics)\<close>, and the
  order in which a set of strings is iterated over changes from one process to the next.
  On the same remote side, a run in a process that keeps the order of insertion and a run
  in a process that reverses it return dicts whose topics lists differ.
\<close>

theorem topics_order_differs:
  "map_option fst (github_make_response id (stateless topics_remote) (Github ''test'', ())) =
     Some (Inr [(''followers'', PInt 1), (''languages'', PSet [PStr ''php'']),
                (''repos'', PDict [(''forked'', PInt 1), (''unforked'', PInt 0)]),
                (''topics'', PList [PStr ''flask'', PStr ''api'']), (''watchers'', PInt 1)])
   \<and> map_option fst (github_make_response rev (stateless topics_remote) (Github ''test'', ())) =
     Some (Inr [(''followers'', PInt 1), (''languages'', PSet [PStr ''php'']),
                (''repos'', PDict [(''forked'', PInt 1), (''unforked'', PInt 0)]),
                (''topics'', PList [PStr ''api'', PStr ''flask'']), (''watchers'', PInt 1)])
   \<and> map_option fst (github_make_response id (stateless topics_remote) (Github ''test'', ())) \<noteq>
     map_option fst (github_make_response rev (stateless topics_remote) (Github ''test'', ()))"
  unfolding topics_in_order topics_reversed by simp

section \<open>The merge function leaves its inputs as they were\<close>

text \<open>
  A store \<open>h\<close> extends \<open>h0\<close> within the frame when the objects of \<open>h0\<close> are still there,
  unchanged, and the objects after them refer only to objects after them. Every statement
  of the merge function keeps the frame.
\<close>

lemmas store_defs = bindS_def pure_def alloc_def load_def put_def slot_list_def set_update_obj_def

definition framed :: "store \<Rightarrow> store \<Rightarrow> bool" where
  "framed h0 h \<longleftrightarrow>
     length h0 \<le> length h \<and> take (length h0) h = h0
     \<and> (\<forall>a. length h0 \<le> a \<and> a < length h \<longrightarrow> (\<forall>x\<in>obj_refs (h ! a). length h0 \<le> x))"

definition fresh_slot :: "store \<Rightarrow> slot \<Rightarrow> bool" where
  "fresh_slot h0 v \<longleftrightarrow> (\<forall>x\<in>slot_refs v. length h0 \<le> x)"

definition keeps :: "store \<Rightarrow> 'a stmt \<Rightarrow> ('a \<Rightarrow> bool) \<Rightarrow> bool" where
  "keeps h0 m Q \<longleftrightarrow>
     (\<forall>h. framed h0 h \<longrightarrow> framed h0 (snd (m h)) \<and> (\<forall>x. fst (m h) = Inr x \<longrightarrow> Q x))"

lemma keepsI:
  assumes "\<And>h. framed h0 h \<Longrightarrow> framed h0 (snd (m h))"
    and "\<And>h x. framed h0 h \<Longrightarrow> fst (m h) = Inr x \<Longrightarrow> Q x"
  shows "keeps h0 m Q"
  using assms unfolding keeps_def by blast

lemma keeps_bindS:
  assumes "keeps h0 m Q" "\<And>x. Q x \<Longrightarrow> keeps h0 (f x) Q'"
  shows "keeps h0 (bindS m f) Q'"
  unfolding keeps_def
proof (intro allI impI)
  fix h
  assume h: "framed h0 h"
  obtain r h1 where m: "m h = (r, h1)" by (cases "m h")
  from assms(1) h m have h1: "framed h0 h1" and q: "\<And>x. r = Inr x \<Longrightarrow> Q x"
    unfolding keeps_def by fastforce+
  show "framed h0 (snd (bindS m f h)) \<and> (\<forall>x. fst (bindS m f h) = Inr x \<longrightarrow> Q' x)"
  proof (cases r)
    case (Inl e)
    with m h1 show ?thesis by (simp add: bindS_def)
  next
    case (Inr x)
    from assms(2) [OF q [OF Inr]] h1 have
      "framed h0 (snd (f x h1)) \<and> (\<forall>y. fst (f x h1) = Inr y \<longrightarrow> Q' y)"
      unfolding keeps_def by blast
    with m Inr show ?thesis by (simp add: bindS_def)
  qed
qed

lemma keeps_weaken: "keeps h0 m Q \<Longrightarrow> (\<And>x. Q x \<Longrightarrow> Q' x) \<Longrightarrow> keeps h0 m Q'"
  unfolding keeps_def by blast

lemma keeps_pure: "(\<And>x. r = Inr x \<Longrightarrow> Q x) \<Longrightarrow> keeps h0 (pure r) Q"
  by (simp add: keeps_def pure_def)

lemma keeps_load: "keeps h0 (load a) (\<lambda>ob. length h0 \<le> a \<longrightarrow> (\<forall>x\<in>obj_refs ob. length h0 \<le> x))"
  by (auto simp: keeps_def load_def framed_def)

lemma framed_refs:
  "framed h0 h \<Longrightarrow> length h0 \<le> a \<Longrightarrow> a < length h \<Longrightarrow> x \<in> obj_refs (h ! a) \<Longrightarrow> length h0 \<le> x"
  unfolding framed_def by blast

lemma framedI:
  assumes "length h0 \<le> length h" "take (length h0) h = h0"
    and "\<And>a x. length h0 \<le> a \<Longrightarrow> a < length h \<Longrightarrow> x \<in> obj_refs (h ! a) \<Longrightarrow> length h0 \<le> x"
  shows "framed h0 h"
  using assms unfolding framed_def by blast

lemma framed_length: "framed h0 h \<Longrightarrow> length h0 \<le> length h"
  unfolding framed_def by blast

lemma framed_take: "framed h0 h \<Longrightarrow> take (length h0) h = h0"
  unfolding framed_def by blast

lemma keeps_alloc:
  assumes "\<forall>x\<in>obj_refs ob. length h0 \<le> x"
  shows "keeps h0 (alloc ob) (\<lambda>a. length h0 \<le> a)"
proof (rule keepsI)
  fix h
  assume h: "framed h0 h"
  have "framed h0 (h @ [ob])"
  proof (rule framedI)
    show "length h0 \<le> length (h @ [ob])"
      using framed_length [OF h] by simp
    show "take (length h0) (h @ [ob]) = h0"
      using framed_length [OF h] framed_take [OF h] by simp
    fix a x
    assume a: "length h0 \<le> a" "a < length (h @ [ob])" "x \<in> obj_refs ((h @ [ob]) ! a)"
    show "length h0 \<le> x"
    proof (cases "a < length h")
      case True
      with a(3) have "x \<in> obj_refs (h ! a)" by (simp add: nth_append)
      with h a(1) True show ?thesis by (rule framed_refs)
    next
      case False
      with a(2) have "a = length h" by simp
      with a(3) have "x \<in> obj_refs ob" by simp
      with assms show ?thesis by blast
    qed
  qed
  then show "framed h0 (snd (alloc ob h))"
    by (simp add: alloc_def)
next
  fix h x
  assume "framed h0 h" "fst (alloc ob h) = Inr x"
  then show "length h0 \<le> x"
    using framed_length [of h0 h] by (simp add: alloc_def)
qed

lemma keeps_put:
  assumes "length h0 \<le> a" "\<forall>x\<in>obj_refs ob. length h0 \<le> x"
  shows "keeps h0 (put a ob) (\<lambda>u. True)"
proof (rule keepsI)
  fix h
  assume h: "framed h0 h"
  have "framed h0 (h[a := ob])"
  proof (rule framedI)
    show "length h0 \<le> length (h[a := ob])"
      using framed_length [OF h] by simp
    show "take (length h0) (h[a := ob]) = h0"
      using assms(1) framed_take [OF h] by simp
    fix a' x
    assume a: "length h0 \<le> a'" "a' < length (h[a := ob])" "x \<in> obj_refs (h[a := ob] ! a')"
    show "length h0 \<le> x"
    proof (cases "a' = a")
      case True
      with a(2,3) have "x \<in> obj_refs ob" by simp
      with assms(2) show ?thesis by blast
    next
      case False
      with a(3) have "x \<in> obj_refs (h ! a')" by simp
      with h a(1) a(2) show ?thesis by (simp add: framed_refs)
    qed
  qed
  then show "framed h0 (snd (put a ob h))"
    by (simp add: put_def)
qed simp

lemma keeps_true: "keeps h0 m Q \<Longrightarrow> keeps h0 m (\<lambda>x. True)"
  unfolding keeps_def by blast

lemma map_of_refs:
  assumes "map_of d k = Some v" "x \<in> slot_refs v"
  shows "x \<in> obj_refs (ODict d)"
proof -
  from assms(1) have "(k, v) \<in> set d" by (rule map_of_SomeD)
  with assms(2) show ?thesis by force
qed

lemma update_refs:
  "x \<in> obj_refs (ODict (AList.update k v d)) \<Longrightarrow> x \<in> obj_refs (ODict d) \<or> x \<in> slot_refs v"
  by (induction d) (auto split: if_splits)

lemma keeps_getitem:
  "keeps h0 (slot_getitem v k) (\<lambda>r. fresh_slot h0 v \<longrightarrow> fresh_slot h0 r)"
proof (cases v)
  case (Imm x)
  show ?thesis
    unfolding Imm slot_getitem.simps
    by (rule keeps_pure) (auto simp: fresh_slot_def bindE_eq_Inr)
next
  case (Ref a)
  show ?thesis
    unfolding Ref slot_getitem.simps
  proof (rule keeps_bindS [OF keeps_load])
    fix ob
    assume ob: "length h0 \<le> a \<longrightarrow> (\<forall>x\<in>obj_refs ob. length h0 \<le> x)"
    show "keeps h0
        (case ob of
           ODict d \<Rightarrow> pure (case map_of d k of None \<Rightarrow> Inl KeyError | Some v \<Rightarrow> Inr v)
         | OSet xs \<Rightarrow> pure (Inl TypeError)
         | OList xs \<Rightarrow> pure (Inl TypeError))
        (\<lambda>r. fresh_slot h0 (Ref a) \<longrightarrow> fresh_slot h0 r)"
    proof (cases ob)
      case (ODict d)
      show ?thesis
        unfolding ODict obj.case
      proof (rule keeps_pure, intro impI)
        fix r
        assume r: "(case map_of d k of None \<Rightarrow> Inl KeyError | Some v \<Rightarrow> Inr v) = Inr r"
          and a: "fresh_slot h0 (Ref a)"
        from r have m: "map_of d k = Some r"
          by (simp split: option.splits)
        from a ob ODict have "\<forall>x\<in>obj_refs (ODict d). length h0 \<le> x"
          by (simp add: fresh_slot_def)
        with map_of_refs [OF m] show "fresh_slot h0 r"
          unfolding fresh_slot_def by blast
      qed
    next
      case (OSet xs)
      show ?thesis unfolding OSet obj.case by (rule keeps_pure) simp
    next
      case (OList xs)
      show ?thesis unfolding OList obj.case by (rule keeps_pure) simp
    qed
  qed
qed

lemma keeps_setitem:
  assumes "fresh_slot h0 x" "fresh_slot h0 v"
  shows "keeps h0 (slot_setitem x k v) (\<lambda>u. True)"
proof (cases x)
  case (Imm y)
  show ?thesis
    unfolding Imm slot_setitem.simps by (rule keeps_pure) simp
next
  case (Ref a)
  from assms(1) have a: "length h0 \<le> a"
    by (simp add: Ref fresh_slot_def)
  show ?thesis
    unfolding Ref slot_setitem.simps
  proof (rule keeps_bindS [OF keeps_load])
    fix ob
    assume "length h0 \<le> a \<longrightarrow> (\<forall>x\<in>obj_refs ob. length h0 \<le> x)"
    with a have ob: "\<forall>x\<in>obj_refs ob. length h0 \<le> x" by blast
    show "keeps h0
        (case ob of
           ODict d \<Rightarrow> put a (ODict (AList.update k v d))
         | OSet xs \<Rightarrow> pure (Inl TypeError)
         | OList xs \<Rightarrow> pure (Inl TypeError))
        (\<lambda>u. True)"
    proof (cases ob)
      case (ODict d)
      have "\<forall>x\<in>obj_refs (ODict (AList.update k v d)). length h0 \<le> x"
        using ob assms(2) update_refs [of _ k v d] unfolding ODict fresh_slot_def by blast
      then show ?thesis
        unfolding ODict obj.case by (rule keeps_put [OF a])
    next
      case (OSet xs)
      show ?thesis unfolding OSet obj.case by (rule keeps_pure) simp
    next
      case (OList xs)
      show ?thesis unfolding OList obj.case by (rule keeps_pure) simp
    qed
  qed
qed

lemma keeps_iter: "keeps h0 (slot_iter so v) (\<lambda>items. True)"
proof (cases v)
  case (Imm x)
  show ?thesis unfolding Imm slot_iter.simps by (rule keeps_pure) simp
next
  case (Ref a)
  show ?thesis
    unfolding Ref slot_iter.simps
    by (rule keeps_bindS [OF keeps_load]) (auto split: obj.splits intro: keeps_pure)
qed

lemma keeps_len: "keeps h0 (slot_len v) (\<lambda>n. True)"
proof (cases v)
  case (Imm x)
  show ?thesis unfolding Imm slot_len.simps by (rule keeps_pure) simp
next
  case (Ref a)
  show ?thesis
    unfolding Ref slot_len.simps
    by (rule keeps_bindS [OF keeps_load]) (auto split: obj.splits intro: keeps_pure)
qed

lemma keeps_new_list: "keeps h0 (bindS (alloc (OList xs)) (\<lambda>l. pure (Inr (Ref l)))) (fresh_slot h0)"
  by (rule keeps_bindS [OF keeps_alloc]) (auto intro!: keeps_pure simp: fresh_slot_def)

lemma keeps_list: "keeps h0 (slot_list so x) (fresh_slot h0)"
  unfolding slot_list_def
  by (rule keeps_bindS [OF keeps_iter]) (rule keeps_new_list)

lemma keeps_add: "keeps h0 (slot_add a b) (fresh_slot h0)"
proof (cases a; cases b)
  fix x y
  assume "a = Imm x" "b = Imm y"
  then show ?thesis
    by (auto intro!: keeps_pure simp: fresh_slot_def bindE_eq_Inr)
next
  fix x y
  assume ab: "a = Ref x" "b = Ref y"
  show ?thesis
    unfolding ab slot_add.simps
    apply (rule keeps_bindS [OF keeps_load])
    apply (rule keeps_bindS [OF keeps_load])
    subgoal for oa ob
      by (cases oa; cases ob) (auto intro: keeps_pure keeps_new_list)
    done
qed (auto intro!: keeps_pure)

lemma keeps_set_update:
  assumes "length h0 \<le> s"
  shows "keeps h0 (set_update_obj so s x) (\<lambda>u. True)"
  unfolding set_update_obj_def
  apply (rule keeps_bindS [OF keeps_iter])
  apply (rule keeps_bindS [OF keeps_load])
  subgoal for items ob
    by (cases ob; cases "set_update (case ob of OSet xs \<Rightarrow> xs | _ \<Rightarrow> []) items")
       (auto intro!: keeps_bindS [OF keeps_put [OF assms]] keeps_pure)
  done

lemma fresh_ref: "length h0 \<le> a \<Longrightarrow> fresh_slot h0 (Ref a)"
  by (simp add: fresh_slot_def)

lemma fresh_imm: "fresh_slot h0 (Imm v)"
  by (simp add: fresh_slot_def)

lemma keeps_getitem_fresh:
  "fresh_slot h0 v \<Longrightarrow> keeps h0 (slot_getitem v k) (fresh_slot h0)"
  by (rule keeps_weaken [OF keeps_getitem]) simp

lemma keeps_getitem_any: "keeps h0 (slot_getitem v k) (\<lambda>r. True)"
  by (rule keeps_true [OF keeps_getitem])

lemma keeps_new_results: "keeps h0 new_results (\<lambda>res. length h0 \<le> res)"
  unfolding new_results_def
  apply (rule keeps_bindS, rule keeps_alloc, simp)
  apply (rule keeps_bindS, rule keeps_alloc, simp)
  apply (rule keeps_bindS, rule keeps_alloc, simp)
  apply (rule keeps_alloc, simp)
  done

lemma keeps_merge_followers:
  "length h0 \<le> res \<Longrightarrow> keeps h0 (merge_followers bitbucket github res) (\<lambda>u. True)"
  unfolding merge_followers_def
  apply (rule keeps_bindS, rule keeps_getitem_any)
  apply (rule keeps_bindS, rule keeps_getitem_any)
  apply (rule keeps_bindS, rule keeps_add)
  apply (rule keeps_setitem, rule fresh_ref, assumption, assumption)
  done

lemma keeps_merge_languages:
  "length h0 \<le> res \<Longrightarrow> keeps h0 (merge_languages so bitbucket github res) (\<lambda>u. True)"
  unfolding merge_languages_def
  apply (rule keeps_bindS, rule keeps_alloc, simp)
  apply (rule keeps_bindS, rule keeps_getitem_any)
  apply (rule keeps_bindS, rule keeps_set_update, assumption)
  apply (rule keeps_bindS, rule keeps_getitem_any)
  apply (rule keeps_bindS, rule keeps_set_update, assumption)
  apply (rule keeps_bindS, rule keeps_list)
  apply (rule keeps_bindS, rule keeps_getitem_fresh, rule fresh_ref, assumption)
  apply (rule keeps_bindS, rule keeps_setitem, assumption, assumption)
  apply (rule keeps_bindS, rule keeps_getitem_fresh, rule fresh_ref, assumption)
  apply (rule keeps_bindS, rule keeps_getitem_any)
  apply (rule keeps_bindS, rule keeps_len)
  apply (rule keeps_bindS, rule keeps_getitem_fresh, rule fresh_ref, assumption)
  apply (rule keeps_setitem, assumption, rule fresh_imm)
  done

lemma keeps_merge_topics:
  "length h0 \<le> res \<Longrightarrow> keeps h0 (merge_topics so github res) (\<lambda>u. True)"
  unfolding merge_topics_def
  apply (rule keeps_bindS, rule keeps_getitem_any)
  apply (rule keeps_bindS, rule keeps_list)
  apply (rule keeps_bindS, rule keeps_getitem_fresh, rule fresh_ref, assumption)
  apply (rule keeps_bindS, rule keeps_setitem, assumption, assumption)
  apply (rule keeps_bindS, rule keeps_getitem_any)
  apply (rule keeps_bindS, rule keeps_len)
  apply (rule keeps_bindS, rule keeps_getitem_fresh, rule fresh_ref, assumption)
  apply (rule keeps_setitem, assumption, rule fresh_imm)
  done

lemma keeps_merge_repos:
  "length h0 \<le> res \<Longrightarrow> keeps h0 (merge_repos k bitbucket github res) (\<lambda>u. True)"
  unfolding merge_repos_def
  apply (rule keeps_bindS, rule keeps_getitem_any)
  apply (rule keeps_bindS, rule keeps_getitem_any)
  apply (rule keeps_bindS, rule keeps_getitem_any)
  apply (rule keeps_bindS, rule keeps_getitem_any)
  apply (rule keeps_bindS, rule keeps_add)
  apply (rule keeps_bindS, rule keeps_getitem_fresh, rule fresh_ref, assumption)
  apply (rule keeps_setitem, assumption, assumption)
  done

lemma keeps_merge_repos_count:
  "length h0 \<le> res \<Longrightarrow> keeps h0 (merge_repos_count res) (\<lambda>u. True)"
  unfolding merge_repos_count_def
  apply (rule keeps_bindS, rule keeps_getitem_fresh, rule fresh_ref, assumption)
  apply (rule keeps_bindS, rule keeps_getitem_any)
  apply (rule keeps_bindS, rule keeps_getitem_fresh, rule fresh_ref, assumption)
  apply (rule keeps_bindS, rule keeps_getitem_any)
  apply (rule keeps_bindS, rule keeps_add)
  apply (rule keeps_bindS, rule keeps_getitem_fresh, rule fresh_ref, assumption)
  apply (rule keeps_setitem, assumption, assumption)
  done

lemma keeps_merge_watchers:
  "length h0 \<le> res \<Longrightarrow> keeps h0 (merge_watchers bitbucket github res) (\<lambda>u. True)"
  unfolding merge_watchers_def
  apply (rule keeps_bindS, rule keeps_getitem_any)
  apply (rule keeps_bindS, rule keeps_getitem_any)
  apply (rule keeps_bindS, rule keeps_add)
  apply (rule keeps_setitem, rule fresh_ref, assumption, assumption)
  done

lemma keeps_combine_store:
  "keeps h0 (combine_store so bitbucket github) (\<lambda>res. length h0 \<le> res)"
  unfolding combine_store_def
  apply (rule keeps_bindS, rule keeps_new_results)
  apply (rule keeps_bindS, rule keeps_merge_followers, assumption)
  apply (rule keeps_bindS, rule keeps_merge_languages, assumption)
  apply (rule keeps_bindS, rule keeps_merge_topics, assumption)
  apply (rule keeps_bindS, rule keeps_merge_repos, assumption)
  apply (rule keeps_bindS, rule keeps_merge_repos, assumption)
  apply (rule keeps_bindS, rule keeps_merge_repos_count, assumption)
  apply (rule keeps_bindS, rule keeps_merge_watchers, assumption)
  apply (rule keeps_pure)
  apply simp
  done

lemma framed_refl: "framed h h"
  by (simp add: framed_def)

lemmas combine_store_defs = combine_store_def new_results_def merge_followers_def
  merge_languages_def merge_topics_def merge_repos_def merge_repos_count_def merge_watchers_def

lemma combine_store_test:
  "combine_store id 2 6 test_store =
     (Inr 10, test_store @
       [ODict [(''list'', Ref 12), (''count'', Imm (PInt 2))],
        ODict [(''list'', Ref 13), (''count'', Imm (PInt 1))],
        ODict [(''forked'', Imm (PInt 2)), (''unforked'', Imm (PInt 2)), (''count'', Imm (PInt 4))],
        ODict [(''languages'', Ref 7), (''topics'', Ref 8), (''repos'', Ref 9),
               (''followers'', Imm (PInt 2)), (''watchers'', Imm (PInt 2))],
        OSet [PStr ''python'', PStr ''javascript''],
        OList [PStr ''python'', PStr ''javascript''],
        OList [PStr ''flask'']])"
  by (simp add: combine_store_defs test_store_def store_defs set_add_def dict_getitem_def)

text \<open>
  Claim C10: the merge function never changes its two input dicts, for every pair of
  inputs, and what it returns is newly built. On the store: whatever \<open>combine so\<close> does,
  returning or raising, the objects that were in the store before the call are the same
  after it (the two arguments, their nested repos dicts and their language and topic
  collections among them); a returned reference is that of an object made by the call;
  and every object made by the call refers to objects made by the call only, so nothing
  reachable from the result is an object of the inputs. The elements of the sets and
  lists are values (strings, numbers), as the collectors produce them.
\<close>

theorem combine_keeps_inputs:
  assumes "combine_store so bitbucket github h = (r, h')"
  shows "length h \<le> length h' \<and> take (length h) h' = h
     \<and> (\<forall>a. length h \<le> a \<and> a < length h' \<longrightarrow> (\<forall>x\<in>obj_refs (h' ! a). length h \<le> x))
     \<and> (\<forall>res. r = Inr res \<longrightarrow> length h \<le> res)"
proof -
  have k: "keeps h (combine_store so bitbucket github) (\<lambda>res. length h \<le> res)"
    by (rule keeps_combine_store)
  have "framed h (snd (combine_store so bitbucket github h))"
    and "\<forall>res. fst (combine_store so bitbucket github h) = Inr res \<longrightarrow> length h \<le> res"
    using k framed_refl [of h] unfolding keeps_def by blast+
  then show ?thesis
    unfolding assms framed_def by simp
qed

text \<open>The theorem at the inputs of test/test\_combine.py, the result dict made at 10.\<close>

theorem combine_keeps_inputs_witness:
  "fst (combine_store id 2 6 test_store) = Inr 10
     \<and> length (snd (combine_store id 2 6 test_store)) = 14
     \<and> take 7 (snd (combine_store id 2 6 test_store)) = test_store
     \<and> obj_refs (snd (combine_store id 2 6 test_store) ! 10) = {7, 8, 9}"
proof -
  note t = combine_store_test
  from combine_keeps_inputs [OF t]
  have "take (length test_store) (snd (combine_store id 2 6 test_store)) = test_store"
    unfolding t by simp
  moreover have "length test_store = 7"
    by (simp add: test_store_def)
  ultimately have "take 7 (snd (combine_store id 2 6 test_store)) = test_store"
    by simp
  moreover have "fst (combine_store id 2 6 test_store) = Inr 10"
    "length (snd (combine_store id 2 6 test_store)) = 14"
    unfolding t by (simp_all add: test_store_def)
  moreover have "obj_refs (snd (combine_store id 2 6 test_store) ! 10) = {7, 8, 9}"
    unfolding t by (auto simp: test_store_def nth_append)
  ultimately show ?thesis
    by simp
qed
end
